theory Spec2Isabelle
  imports Complex_Main
begin

section \<open>The authentication and game-import backend\<close>

text \<open>
  The repository holds two versions of one HTTP backend:
  \<^item> \<^verbatim>\<open>src/server.js\<close>, the Postgres-only server (object \<^verbatim>\<open>db\<close>);
  \<^item> \<^verbatim>\<open>src/unnamed/part_000\<close>, the dual-mode server (object \<^verbatim>\<open>queries\<close>, filled by
    \<^verbatim>\<open>initPostgres\<close> or \<^verbatim>\<open>initSqlite\<close>).
  Both are embedded here. Every request is a function from the state of the stores to a
  response and the new state. What the code calls but does not define (the JSON
  built-ins, bcrypt, the database drivers, express-session) is either a field of
  \<open>platform\<close>, left uninterpreted, or a small state machine written out below.
  Requests are answered one after the other; time (the expiry of a session) and
  requests in flight at once are outside the model.
\<close>

subsection \<open>JavaScript values\<close>

text \<open>
  The values a JSON request body can hold, and \<open>undefined\<close>. A number carries its exact
  value. An object is the list of its own properties, each key once. A string is the
  list of the bytes of its UTF-8 encoding; a lone surrogate, which a JavaScript string
  can hold and UTF-8 cannot, is written as the three bytes its code point would have
  (\<open>ED A0 80\<close> to \<open>ED BF BF\<close>), so that two strings are equal exactly when their lists are.
\<close>

datatype jsval =
    JUndefined
  | JNull
  | JBool bool
  | JNum rat
  | JStr string
  | JArr "jsval list"
  | JObj "(string \<times> jsval) list"

text \<open>\<^verbatim>\<open>!v\<close> is \<open>\<not> truthy v\<close>.\<close>

fun truthy :: "jsval \<Rightarrow> bool" where
  "truthy JUndefined = False"
| "truthy JNull = False"
| "truthy (JBool b) = b"
| "truthy (JNum r) = (r \<noteq> 0)"
| "truthy (JStr s) = (s \<noteq> [])"
| "truthy (JArr xs) = True"
| "truthy (JObj kvs) = True"

text \<open>\<^verbatim>\<open>typeof v === 'string'\<close>\<close>

fun is_string :: "jsval \<Rightarrow> bool" where
  "is_string (JStr s) = True"
| "is_string v = False"

text \<open>\<^verbatim>\<open>v == null\<close>\<close>

fun nullish :: "jsval \<Rightarrow> bool" where
  "nullish JUndefined = True"
| "nullish JNull = True"
| "nullish v = False"

text \<open>
  \<^verbatim>\<open>v.k\<close> for a value that is neither \<open>null\<close> nor \<open>undefined\<close> (there the access
  throws, which every caller below checks first) and for the keys the servers read
  (\<open>username\<close>, \<open>password\<close>, \<open>games\<close>, \<open>pgn\<close>, \<open>fens\<close>, \<open>date\<close>, \<open>created_at\<close>), none of
  which an array, a string, a number or a boolean has.
\<close>

fun js_get :: "jsval \<Rightarrow> string \<Rightarrow> jsval" where
  "js_get (JObj kvs) k = (case map_of kvs k of Some v \<Rightarrow> v | None \<Rightarrow> JUndefined)"
| "js_get v k = JUndefined"

text \<open>\<^verbatim>\<open>a || b\<close>\<close>

definition js_or :: "jsval \<Rightarrow> jsval \<Rightarrow> jsval" where
  "js_or a b = (if truthy a then a else b)"

subsection \<open>What the servers call but do not define\<close>

datatype driver = Pg | Sqlite

text \<open>
  \<^item> \<open>JSON_parse s\<close> is \<open>None\<close> when \<^verbatim>\<open>JSON.parse(s)\<close> throws a SyntaxError.
  \<^item> \<open>bcrypt_hash data salt\<close> is \<^verbatim>\<open>bcrypt.hash(data, SALT_ROUNDS)\<close> when the library
    drew \<open>salt\<close>; \<open>bcrypt_compare data hash\<close> is \<^verbatim>\<open>bcrypt.compare\<close>. Both are for
    string data: on any other data the library rejects, which \<open>bcrypt_hash_call\<close> and
    \<open>bcrypt_compare_call\<close> write out.
  \<^item> \<open>bind_text d v\<close> is the text a driver sends for a query parameter \<open>v\<close> that is
    not a string, \<open>None\<close> when the driver refuses the value (better-sqlite3 binds only
    numbers, strings, bigints, buffers and null). What is sent for a string is written
    out in \<open>sql_text\<close>.
  \<^item> \<open>parse_timestamp v\<close> is how Postgres reads the parameter of a \<open>TIMESTAMPTZ\<close>
    column, \<open>None\<close> when it rejects the input.
  \<^item> \<open>toISOString t\<close> is \<^verbatim>\<open>new Date(t).toISOString()\<close>.
\<close>

record platform =
  JSON_parse :: "string \<Rightarrow> jsval option"
  JSON_stringify :: "jsval \<Rightarrow> string"
  bcrypt_hash :: "string \<Rightarrow> nat \<Rightarrow> string"
  bcrypt_compare :: "string \<Rightarrow> string \<Rightarrow> bool"
  bind_text :: "driver \<Rightarrow> jsval \<Rightarrow> string option"
  parse_timestamp :: "jsval \<Rightarrow> nat option"
  toISOString :: "nat \<Rightarrow> string"

text \<open>The statements the servers send, and the operations of the session store.\<close>

datatype stmt =
    SelectUser
  | InsertUser
  | Connect
  | Begin
  | InsertGame nat
  | Commit
  | SelectGames

datatype store_op = StoreGet | StoreDestroy | StoreSet

text \<open>
  What the outside world decides during one request: the salt bcrypt draws, the clock,
  which statements the database fails (\<open>InsertGame i\<close> is the insert of the \<open>i\<close>-th
  record of a batch) and which operations of a database-backed session store fail.
\<close>

record env =
  salt :: nat
  now :: nat
  db_fault :: "stmt \<Rightarrow> bool"
  store_fault :: "store_op \<Rightarrow> bool"

datatype exn = TypeError | SyntaxError | DbError | BcryptError

subsection \<open>The stores\<close>

record user_row =
  u_id :: nat
  u_username :: string
  u_password_hash :: string

record game_row =
  g_id :: nat
  g_user_id :: nat
  g_pgn :: string
  g_fens :: string
  g_created_at :: nat

text \<open>
  \<^verbatim>\<open>req.session\<close>: the two fields the servers set. The session's cookie settings and
  its 24-hour expiry are not modelled.
\<close>

record session =
  userId :: "nat option"
  username :: jsval

definition empty_session :: session where
  "empty_session = \<lparr>userId = None, username = JUndefined\<rparr>"

text \<open>
  The tables \<open>users\<close> and \<open>games\<close> with their id sequences, the transaction the
  connection has open (the rows and the sequence as they were at \<open>BEGIN\<close>), the session
  store, and the session identifiers issued so far. express-session draws identifiers
  at random (24 bytes); the model issues \<open>0, 1, 2, ...\<close>, so that an identifier is
  never issued twice.
\<close>

record state =
  users :: "user_row list"
  users_seq :: nat
  games :: "game_row list"
  games_seq :: nat
  snapshot :: "(game_row list \<times> nat) option"
  sessions :: "nat \<Rightarrow> session option"
  sid_seq :: nat

definition initial_state :: state where
  "initial_state = \<lparr>users = [], users_seq = 0, games = [], games_seq = 0,
     snapshot = None, sessions = (\<lambda>s. None), sid_seq = 0\<rparr>"

subsection \<open>Database wrappers\<close>

text \<open>
  A driver sends a string as UTF-8 (\<^verbatim>\<open>Buffer.from(s, 'utf8')\<close> in pg, the UTF-8 of V8 in
  better-sqlite3), in which every lone surrogate becomes U+FFFD, the bytes \<open>EF BF BD\<close>.
  In the encoding of a string the byte \<open>ED\<close> followed by a byte from \<open>A0\<close> on starts a
  lone surrogate and nothing else does.
\<close>

fun utf8_of :: "string \<Rightarrow> string" where
  "utf8_of (a # b # c # rest) =
     (if a = CHR 0xED \<and> (0xA0::nat) \<le> of_char b
      then CHR 0xEF # CHR 0xBF # CHR 0xBD # utf8_of rest
      else a # utf8_of (b # c # rest))"
| "utf8_of s = s"

text \<open>
  The text of a query parameter as the database takes it, \<open>None\<close> when the statement is
  refused for it. A string arrives as its UTF-8, and Postgres refuses a text that holds
  U+0000 (\<^verbatim>\<open>invalid byte sequence for encoding "UTF8": 0x00\<close>); SQLite stores it.
\<close>

definition sql_text :: "platform \<Rightarrow> driver \<Rightarrow> jsval \<Rightarrow> string option" where
  "sql_text P d v =
     (case v of
        JStr s \<Rightarrow> (if d = Pg \<and> CHR 0x00 \<in> set s then None else Some (utf8_of s))
      | _ \<Rightarrow> bind_text P d v)"

text \<open>
  What a refused parameter throws: with Postgres the error of the database, with
  better-sqlite3 the TypeError of its binder.
\<close>

definition refused :: "driver \<Rightarrow> exn" where
  "refused d = (if d = Pg then DbError else TypeError)"

text \<open>
  \<^verbatim>\<open>findUserByName\<close> (server.js 74-77; dual-mode 54-57 and 122-124):
  \<^verbatim>\<open>SELECT ... FROM users WHERE username = $1\<close>, first row or \<open>null\<close>.
\<close>

definition findUserByName ::
  "platform \<Rightarrow> env \<Rightarrow> driver \<Rightarrow> jsval \<Rightarrow> state \<Rightarrow> exn + user_row option" where
  "findUserByName P e d uname st =
     (if db_fault e SelectUser then Inl DbError
      else case sql_text P d uname of
             None \<Rightarrow> Inl (refused d)
           | Some t \<Rightarrow> Inr (find (\<lambda>r. u_username r = t) (users st)))"

text \<open>
  \<^verbatim>\<open>insertUser\<close> (server.js 78-81; dual-mode 58-61 and 125-128). The column is
  \<open>UNIQUE\<close>: a second row with the same name is refused by the database. A Postgres
  sequence keeps the value a refused insert drew.
\<close>

definition insertUser ::
  "platform \<Rightarrow> env \<Rightarrow> driver \<Rightarrow> jsval \<Rightarrow> string \<Rightarrow> state \<Rightarrow> (exn + nat) \<times> state" where
  "insertUser P e d uname password_hash st =
     (if db_fault e InsertUser then (Inl DbError, st)
      else case sql_text P d uname of
             None \<Rightarrow> (Inl (refused d), st)
           | Some t \<Rightarrow>
               if t \<in> set (map u_username (users st))
               then (Inl DbError,
                     st\<lparr>users_seq := (if d = Pg then Suc (users_seq st) else users_seq st)\<rparr>)
               else (Inr (Suc (users_seq st)),
                     st\<lparr>users := users st @
                          [\<lparr>u_id = Suc (users_seq st), u_username = t,
                            u_password_hash = password_hash\<rparr>],
                        users_seq := Suc (users_seq st)\<rparr>))"

text \<open>
  One \<^verbatim>\<open>INSERT INTO games\<close>. \<open>pgn\<close> and \<open>fens\<close> are its text parameters (\<open>fens\<close> is
  a string in every caller). \<open>created\<close> is the \<open>created_at\<close> parameter when the
  statement has one (server.js); without it the column defaults to the clock.
  \<open>user_id\<close> references \<open>users(id)\<close>, which Postgres enforces and SQLite does as
  better-sqlite3 builds it.
\<close>

definition insert_game ::
  "platform \<Rightarrow> env \<Rightarrow> driver \<Rightarrow> nat \<Rightarrow> nat \<Rightarrow> jsval \<Rightarrow> string \<Rightarrow> jsval option \<Rightarrow> state
     \<Rightarrow> exn option \<times> state" where
  "insert_game P e d i uid pgn fens created st =
     (if db_fault e (InsertGame i) then (Some DbError, st)
      else case (sql_text P d pgn, sql_text P d (JStr fens)) of
             (Some pgn_text, Some fens_text) \<Rightarrow>
               (case (case created of None \<Rightarrow> Some (now e)
                                    | Some c \<Rightarrow> parse_timestamp P c) of
                  None \<Rightarrow> (Some DbError, st)
                | Some t \<Rightarrow>
                    if uid \<in> set (map u_id (users st))
                    then (None,
                          st\<lparr>games := games st @
                               [\<lparr>g_id = Suc (games_seq st), g_user_id = uid,
                                 g_pgn = pgn_text, g_fens = fens_text, g_created_at = t\<rparr>],
                             games_seq := Suc (games_seq st)\<rparr>)
                    else (Some DbError, st\<lparr>games_seq := Suc (games_seq st)\<rparr>))
           | _ \<Rightarrow> (Some (refused d), st))"

text \<open>
  \<open>BEGIN\<close>, \<open>COMMIT\<close> and \<open>ROLLBACK\<close> on the connection. \<open>ROLLBACK\<close> puts the rows
  back as they were at \<open>BEGIN\<close> (and, in SQLite, the \<open>AUTOINCREMENT\<close> counter, which
  lives in a table); with no transaction open it does nothing. It is modelled as never
  failing: a connection that is lost takes its open transaction with it.
\<close>

definition sql_begin :: "env \<Rightarrow> state \<Rightarrow> exn option \<times> state" where
  "sql_begin e st =
     (if db_fault e Begin then (Some DbError, st)
      else (None, st\<lparr>snapshot := Some (games st, games_seq st)\<rparr>))"

definition sql_commit :: "env \<Rightarrow> state \<Rightarrow> exn option \<times> state" where
  "sql_commit e st =
     (if db_fault e Commit then (Some DbError, st)
      else (None, st\<lparr>snapshot := None\<rparr>))"

definition sql_rollback :: "driver \<Rightarrow> state \<Rightarrow> state" where
  "sql_rollback d st =
     (case snapshot st of
        None \<Rightarrow> st
      | Some (rows, n) \<Rightarrow>
          st\<lparr>games := rows,
             games_seq := (if d = Sqlite then n else games_seq st),
             snapshot := None\<rparr>)"

text \<open>
  The position data of one record as server.js line 89 writes it:
  \<^verbatim>\<open>(g.fens == null) ? '[]' : (typeof g.fens === 'string' ?
      (try { JSON.parse(g.fens); return g.fens } catch { return JSON.stringify([g.fens]) })
      : JSON.stringify(g.fens))\<close>
\<close>

definition normalize_fens :: "platform \<Rightarrow> jsval \<Rightarrow> string" where
  "normalize_fens P f =
     (if nullish f then ''[]''
      else case f of
             JStr s \<Rightarrow> (case JSON_parse P s of
                          Some v \<Rightarrow> s
                        | None \<Rightarrow> JSON_stringify P (JArr [f]))
           | _ \<Rightarrow> JSON_stringify P f)"

text \<open>
  The loop of \<^verbatim>\<open>db.insertGamesBulk\<close> (server.js 87-92) from the \<open>i\<close>-th record on. It
  stops at the first record that throws: \<^verbatim>\<open>g.pgn\<close> on \<open>null\<close> or \<open>undefined\<close> is a
  TypeError, and a failed \<open>INSERT\<close> rejects.
\<close>

fun db_insert_loop ::
  "platform \<Rightarrow> env \<Rightarrow> nat \<Rightarrow> nat \<Rightarrow> jsval list \<Rightarrow> state \<Rightarrow> exn option \<times> state" where
  "db_insert_loop P e uid i [] st = (None, st)"
| "db_insert_loop P e uid i (g # gs) st =
     (if nullish g then (Some TypeError, st)
      else
        let pgn = js_or (js_get g ''pgn'') (JStr '''');
            fens = normalize_fens P (js_get g ''fens'');
            created_at = js_or (js_get g ''date'')
                           (js_or (js_get g ''created_at'') (JStr (toISOString P (now e))))
        in case insert_game P e Pg i uid pgn fens (Some created_at) st of
             (Some x, st') \<Rightarrow> (Some x, st')
           | (None, st') \<Rightarrow> db_insert_loop P e uid (Suc i) gs st')"

text \<open>
  A transaction around a body, as all three \<^verbatim>\<open>insertGamesBulk\<close> write it:
  \<^verbatim>\<open>try { BEGIN; body; COMMIT } catch (err) { ROLLBACK; throw err }\<close> in server.js
  84-96 and in the dual-mode server's lines 64-72, and \<^verbatim>\<open>db.transaction(body)\<close> of
  better-sqlite3 in its line 131, which runs \<open>BEGIN\<close>, the body and \<open>COMMIT\<close>, and on an
  exception \<open>ROLLBACK\<close> before it throws again. The connection has no transaction open
  when it starts.
\<close>

definition transaction ::
  "env \<Rightarrow> driver \<Rightarrow> (state \<Rightarrow> exn option \<times> state) \<Rightarrow> state \<Rightarrow> exn option \<times> state" where
  "transaction e d body st =
     (case (case sql_begin e (st\<lparr>snapshot := None\<rparr>) of
              (Some x, st1) \<Rightarrow> (Some x, st1)
            | (None, st1) \<Rightarrow>
                (case body st1 of
                   (Some x, st2) \<Rightarrow> (Some x, st2)
                 | (None, st2) \<Rightarrow> sql_commit e st2)) of
        (Some x, st3) \<Rightarrow> (Some x, sql_rollback d st3)
      | (None, st3) \<Rightarrow> (None, st3))"

text \<open>
  \<^verbatim>\<open>db.insertGamesBulk\<close> (server.js 82-100). \<^verbatim>\<open>pool.connect()\<close> stands before the
  \<open>try\<close>: when it fails nothing has been sent.
\<close>

definition db_insertGamesBulk ::
  "platform \<Rightarrow> env \<Rightarrow> nat \<Rightarrow> jsval list \<Rightarrow> state \<Rightarrow> exn option \<times> state" where
  "db_insertGamesBulk P e uid gs st =
     (if db_fault e Connect then (Some DbError, st)
      else transaction e Pg (db_insert_loop P e uid 0 gs) st)"

text \<open>
  The loop of the dual-mode \<^verbatim>\<open>queries.insertGamesBulk\<close> (lines 66-68 for Postgres,
  131 for SQLite): \<^verbatim>\<open>[userId, g.pgn || '', JSON.stringify(g.fens || [])]\<close>, no
  \<open>created_at\<close>.
\<close>

fun queries_insert_loop ::
  "platform \<Rightarrow> env \<Rightarrow> driver \<Rightarrow> nat \<Rightarrow> nat \<Rightarrow> jsval list \<Rightarrow> state \<Rightarrow> exn option \<times> state" where
  "queries_insert_loop P e d uid i [] st = (None, st)"
| "queries_insert_loop P e d uid i (g # gs) st =
     (if nullish g then (Some TypeError, st)
      else
        let pgn = js_or (js_get g ''pgn'') (JStr '''');
            fens = JSON_stringify P (js_or (js_get g ''fens'') (JArr []))
        in case insert_game P e d i uid pgn fens None st of
             (Some x, st') \<Rightarrow> (Some x, st')
           | (None, st') \<Rightarrow> queries_insert_loop P e d uid (Suc i) gs st')"

text \<open>
  \<^verbatim>\<open>queries.insertGamesBulk\<close> of the dual-mode server: lines 62-76 with Postgres, the
  same shape as server.js; lines 129-133 with SQLite, where there is no pool to connect
  to.
\<close>

definition queries_insertGamesBulk ::
  "platform \<Rightarrow> env \<Rightarrow> driver \<Rightarrow> nat \<Rightarrow> jsval list \<Rightarrow> state \<Rightarrow> exn option \<times> state" where
  "queries_insertGamesBulk P e d uid gs st =
     (if d = Pg \<and> db_fault e Connect then (Some DbError, st)
      else transaction e d (queries_insert_loop P e d uid 0 gs) st)"

text \<open>
  \<^verbatim>\<open>getGamesByUser\<close> (server.js 101-104; dual-mode 77-80 and 134-137): the owner's
  rows, \<^verbatim>\<open>ORDER BY created_at DESC\<close> (rows of equal time in the order of insertion, which
  SQL leaves open), each mapped to \<^verbatim>\<open>{id, pgn, fens: JSON.parse(r.fens || '[]'), date}\<close>.
  A row whose text does not parse makes the whole call throw.
\<close>

record game_view =
  v_id :: nat
  v_pgn :: string
  v_fens :: jsval
  v_date :: nat

fun game_views :: "platform \<Rightarrow> game_row list \<Rightarrow> exn + game_view list" where
  "game_views P [] = Inr []"
| "game_views P (r # rs) =
     (case JSON_parse P (if g_fens r = [] then ''[]'' else g_fens r) of
        None \<Rightarrow> Inl SyntaxError
      | Some v \<Rightarrow>
          (case game_views P rs of
             Inl x \<Rightarrow> Inl x
           | Inr vs \<Rightarrow>
               Inr (\<lparr>v_id = g_id r, v_pgn = g_pgn r, v_fens = v, v_date = g_created_at r\<rparr> # vs)))"

definition getGamesByUser :: "platform \<Rightarrow> env \<Rightarrow> nat \<Rightarrow> state \<Rightarrow> exn + game_view list" where
  "getGamesByUser P e uid st =
     (if db_fault e SelectGames then Inl DbError
      else game_views P
             (sort_key (\<lambda>r. - int (g_created_at r))
                (filter (\<lambda>r. g_user_id r = uid) (games st))))"

subsection \<open>Sessions\<close>

text \<open>
  Which server runs: \<^verbatim>\<open>src/server.js\<close>, or the dual-mode server with the driver its
  \<^verbatim>\<open>usePostgres\<close> selects. With Postgres the sessions are in the database
  (connect-pg-simple) and an operation of the store can fail; with SQLite they are in
  the MemoryStore of express-session, which never fails.
\<close>

datatype server = ServerJs | DualMode driver

fun driver_of :: "server \<Rightarrow> driver" where
  "driver_of ServerJs = Pg"
| "driver_of (DualMode d) = d"

definition store_fails :: "server \<Rightarrow> env \<Rightarrow> store_op \<Rightarrow> bool" where
  "store_fails srv e op = (driver_of srv = Pg \<and> store_fault e op)"

text \<open>\<^verbatim>\<open>req\<close> as a handler sees it; \<open>req_session\<close> is \<open>None\<close> once the session is destroyed.\<close>

record req =
  req_body :: jsval
  sessionID :: nat
  req_session :: "session option"

datatype json_body =
    ErrorJson string
  | UsernameJson jsval
  | OkJson
  | ImportedJson nat
  | GamesJson "game_view list"
  | ErrorPage

record response =
  status :: nat
  content :: json_body
  set_cookie :: "nat option"
  clear_cookie :: bool

definition json :: "nat \<Rightarrow> json_body \<Rightarrow> response" where
  "json code b = \<lparr>status = code, content = b, set_cookie = None, clear_cookie = False\<rparr>"

text \<open>
  \<^verbatim>\<open>req.session.regenerate(cb)\<close> of express-session, whose store runs
  \<^verbatim>\<open>this.destroy(req.sessionID, function (err) { self.generate(req); cb(err) })\<close>: it
  destroys the entry of the current identifier, then generates a new identifier and an
  empty session whether or not the destroy failed, then calls \<open>cb\<close> with the destroy's
  error. The first component is that error.
\<close>

definition regenerate :: "server \<Rightarrow> env \<Rightarrow> req \<Rightarrow> state \<Rightarrow> bool \<times> req \<times> state" where
  "regenerate srv e rq st =
     (let failed = store_fails srv e StoreDestroy;
          st1 = (if failed then st else st\<lparr>sessions := (sessions st)(sessionID rq := None)\<rparr>)
      in (failed,
          rq\<lparr>sessionID := sid_seq st1, req_session := Some empty_session\<rparr>,
          st1\<lparr>sid_seq := Suc (sid_seq st1)\<rparr>))"

text \<open>
  \<^verbatim>\<open>req.session.destroy(cb)\<close>: deletes \<^verbatim>\<open>req.session\<close>, asks the store to destroy the
  entry, and calls \<open>cb\<close> with the store's error.
\<close>

definition destroy :: "server \<Rightarrow> env \<Rightarrow> req \<Rightarrow> state \<Rightarrow> bool \<times> req \<times> state" where
  "destroy srv e rq st =
     (let failed = store_fails srv e StoreDestroy
      in (failed,
          rq\<lparr>req_session := None\<rparr>,
          if failed then st else st\<lparr>sessions := (sessions st)(sessionID rq := None)\<rparr>))"

subsection \<open>Handlers\<close>

text \<open>\<^verbatim>\<open>req.session && req.session.userId\<close>\<close>

definition authenticated :: "req \<Rightarrow> bool" where
  "authenticated rq =
     (case req_session rq of
        None \<Rightarrow> False
      | Some s \<Rightarrow> (case userId s of None \<Rightarrow> False | Some n \<Rightarrow> n \<noteq> 0))"

text \<open>
  \<^verbatim>\<open>requireAuth\<close> (server.js 134-137; dual-mode 168-171): the next handler, or 401.
\<close>

definition requireAuth ::
  "(req \<Rightarrow> state \<Rightarrow> response \<times> req \<times> state) \<Rightarrow> req \<Rightarrow> state \<Rightarrow> response \<times> req \<times> state" where
  "requireAuth next_handler rq st =
     (if authenticated rq then next_handler rq st
      else (json 401 (ErrorJson ''not_authenticated''), rq, st))"

text \<open>\<^verbatim>\<open>req.session.userId\<close> where \<^verbatim>\<open>requireAuth\<close> has let the request through.\<close>

definition session_userId :: "req \<Rightarrow> nat" where
  "session_userId rq =
     (case req_session rq of
        Some s \<Rightarrow> (case userId s of Some n \<Rightarrow> n | None \<Rightarrow> 0)
      | None \<Rightarrow> 0)"

text \<open>\<^verbatim>\<open>GET /api/me\<close> (server.js 145-148; dual-mode 176-179)\<close>

definition me :: "req \<Rightarrow> state \<Rightarrow> response \<times> req \<times> state" where
  "me rq st =
     (if \<not> authenticated rq then (json 401 (ErrorJson ''not_authenticated''), rq, st)
      else (json 200 (UsernameJson (case req_session rq of
                                      None \<Rightarrow> JUndefined
                                    | Some s \<Rightarrow> username s)), rq, st))"

text \<open>bcrypt rejects data that is not a string (or a Buffer, which JSON cannot carry).\<close>

definition bcrypt_hash_call :: "platform \<Rightarrow> env \<Rightarrow> jsval \<Rightarrow> exn + string" where
  "bcrypt_hash_call P e v =
     (case v of JStr s \<Rightarrow> Inr (bcrypt_hash P s (salt e)) | _ \<Rightarrow> Inl BcryptError)"

definition bcrypt_compare_call :: "platform \<Rightarrow> jsval \<Rightarrow> string \<Rightarrow> exn + bool" where
  "bcrypt_compare_call P v h =
     (case v of JStr s \<Rightarrow> Inr (bcrypt_compare P s h) | _ \<Rightarrow> Inl BcryptError)"

text \<open>
  The input check of \<^verbatim>\<open>POST /api/register\<close>: server.js 154 is
  \<^verbatim>\<open>!username || !password || typeof username !== 'string' || typeof password !== 'string'\<close>,
  the dual-mode server's line 184 is \<^verbatim>\<open>!username || !password\<close>.
\<close>

fun register_rejects :: "server \<Rightarrow> jsval \<Rightarrow> jsval \<Rightarrow> bool" where
  "register_rejects ServerJs uname password =
     (\<not> truthy uname \<or> \<not> truthy password \<or> \<not> is_string uname \<or> \<not> is_string password)"
| "register_rejects (DualMode d) uname password =
     (\<not> truthy uname \<or> \<not> truthy password)"

text \<open>
  \<^verbatim>\<open>POST /api/register\<close> (server.js 151-178; dual-mode 181-205). Everything before
  \<^verbatim>\<open>regenerate\<close> is inside the \<open>try\<close>: what throws there answers 500 \<open>internal\<close>.
\<close>

definition register :: "server \<Rightarrow> platform \<Rightarrow> env \<Rightarrow> req \<Rightarrow> state \<Rightarrow> response \<times> req \<times> state" where
  "register srv P e rq st =
     (let b = js_or (req_body rq) (JObj []);
          uname = js_get b ''username'';
          password = js_get b ''password''
      in if register_rejects srv uname password
         then (json 400 (ErrorJson ''username_and_password_required''), rq, st)
         else
           case findUserByName P e (driver_of srv) uname st of
             Inl x \<Rightarrow> (json 500 (ErrorJson ''internal''), rq, st)
           | Inr (Some existing) \<Rightarrow> (json 409 (ErrorJson ''username_taken''), rq, st)
           | Inr None \<Rightarrow>
               (case bcrypt_hash_call P e password of
                  Inl x \<Rightarrow> (json 500 (ErrorJson ''internal''), rq, st)
                | Inr password_hash \<Rightarrow>
                    (case insertUser P e (driver_of srv) uname password_hash st of
                       (Inl x, st1) \<Rightarrow> (json 500 (ErrorJson ''internal''), rq, st1)
                     | (Inr newId, st1) \<Rightarrow>
                         (case regenerate srv e rq st1 of
                            (err, rq2, st2) \<Rightarrow>
                              if err then (json 500 (ErrorJson ''session_error''), rq2, st2)
                              else (json 201 (UsernameJson uname),
                                    rq2\<lparr>req_session :=
                                          Some \<lparr>userId = Some newId, username = uname\<rparr>\<rparr>,
                                    st2)))))"

text \<open>\<^verbatim>\<open>POST /api/login\<close> (server.js 181-205; dual-mode 207-228)\<close>

definition login :: "server \<Rightarrow> platform \<Rightarrow> env \<Rightarrow> req \<Rightarrow> state \<Rightarrow> response \<times> req \<times> state" where
  "login srv P e rq st =
     (let b = js_or (req_body rq) (JObj []);
          uname = js_get b ''username'';
          password = js_get b ''password''
      in if \<not> truthy uname \<or> \<not> truthy password
         then (json 400 (ErrorJson ''username_and_password_required''), rq, st)
         else
           case findUserByName P e (driver_of srv) uname st of
             Inl x \<Rightarrow> (json 500 (ErrorJson ''internal''), rq, st)
           | Inr None \<Rightarrow> (json 401 (ErrorJson ''invalid_credentials''), rq, st)
           | Inr (Some user) \<Rightarrow>
               (case bcrypt_compare_call P password (u_password_hash user) of
                  Inl x \<Rightarrow> (json 500 (ErrorJson ''internal''), rq, st)
                | Inr ok \<Rightarrow>
                    if \<not> ok then (json 401 (ErrorJson ''invalid_credentials''), rq, st)
                    else
                      (case regenerate srv e rq st of
                         (err, rq2, st2) \<Rightarrow>
                           if err then (json 500 (ErrorJson ''session_error''), rq2, st2)
                           else (json 200 (UsernameJson (JStr (u_username user))),
                                 rq2\<lparr>req_session :=
                                       Some \<lparr>userId = Some (u_id user),
                                             username = JStr (u_username user)\<rparr>\<rparr>,
                                 st2))))"

text \<open>\<^verbatim>\<open>POST /api/logout\<close> (server.js 208-217; dual-mode 230-236)\<close>

definition logout :: "server \<Rightarrow> env \<Rightarrow> req \<Rightarrow> state \<Rightarrow> response \<times> req \<times> state" where
  "logout srv e rq st =
     (case destroy srv e rq st of
        (err, rq2, st2) \<Rightarrow>
          if err then (json 500 (ErrorJson ''logout_failed''), rq2, st2)
          else ((json 200 OkJson)\<lparr>clear_cookie := True\<rparr>, rq2, st2))"

text \<open>The server's own \<^verbatim>\<open>insertGamesBulk\<close>.\<close>

fun insertGamesBulk ::
  "server \<Rightarrow> platform \<Rightarrow> env \<Rightarrow> nat \<Rightarrow> jsval list \<Rightarrow> state \<Rightarrow> exn option \<times> state" where
  "insertGamesBulk ServerJs P e uid gs st = db_insertGamesBulk P e uid gs st"
| "insertGamesBulk (DualMode d) P e uid gs st = queries_insertGamesBulk P e d uid gs st"

text \<open>
  The handler of \<^verbatim>\<open>POST /api/import\<close> (server.js 220-232; dual-mode 239-255):
  \<^verbatim>\<open>Array.isArray(payload.games)\<close> or 400, then the bulk insert.
\<close>

definition import_games ::
  "server \<Rightarrow> platform \<Rightarrow> env \<Rightarrow> req \<Rightarrow> state \<Rightarrow> response \<times> req \<times> state" where
  "import_games srv P e rq st =
     (case js_get (js_or (req_body rq) (JObj [])) ''games'' of
        JArr gs \<Rightarrow>
          (case insertGamesBulk srv P e (session_userId rq) gs st of
             (Some x, st1) \<Rightarrow> (json 500 (ErrorJson ''internal''), rq, st1)
           | (None, st1) \<Rightarrow> (json 200 (ImportedJson (length gs)), rq, st1))
      | _ \<Rightarrow> (json 400 (ErrorJson ''invalid_payload''), rq, st))"

text \<open>The handler of \<^verbatim>\<open>GET /api/games\<close> (server.js 235-243; dual-mode 257-265)\<close>

definition list_games ::
  "platform \<Rightarrow> env \<Rightarrow> req \<Rightarrow> state \<Rightarrow> response \<times> req \<times> state" where
  "list_games P e rq st =
     (case getGamesByUser P e (session_userId rq) st of
        Inl x \<Rightarrow> (json 500 (ErrorJson ''internal''), rq, st)
      | Inr gs \<Rightarrow> (json 200 (GamesJson gs), rq, st))"

subsection \<open>A request through the session middleware\<close>

text \<open>
  A request: the identifier in its \<^verbatim>\<open>hacker_sid\<close> cookie when it has one with a valid
  signature (any other cookie counts as none), and \<^verbatim>\<open>req.body\<close> as body-parser leaves it
  (the empty object or \<open>JUndefined\<close> when there is none). The routes are those of both
  servers; \<^verbatim>\<open>GET /api/status\<close>, which touches nothing, is left out.
\<close>

record request =
  cookie :: "nat option"
  json_in :: jsval

datatype endpoint = GetMe | PostRegister | PostLogin | PostLogout | PostImport | GetGames

fun handler ::
  "server \<Rightarrow> platform \<Rightarrow> env \<Rightarrow> endpoint \<Rightarrow> req \<Rightarrow> state \<Rightarrow> response \<times> req \<times> state" where
  "handler srv P e GetMe rq st = me rq st"
| "handler srv P e PostRegister rq st = register srv P e rq st"
| "handler srv P e PostLogin rq st = login srv P e rq st"
| "handler srv P e PostLogout rq st = logout srv e rq st"
| "handler srv P e PostImport rq st = requireAuth (import_games srv P e) rq st"
| "handler srv P e GetGames rq st = requireAuth (list_games P e) rq st"

text \<open>
  The middleware before the handler: the session of the identifier in the cookie, or,
  when there is no cookie or the store has no entry for it, a new identifier with an
  empty session. \<open>None\<close> when the store's lookup fails.
\<close>

definition load_session :: "server \<Rightarrow> env \<Rightarrow> state \<Rightarrow> nat option \<Rightarrow> (nat \<times> session \<times> state) option" where
  "load_session srv e st ck =
     (case ck of
        None \<Rightarrow> Some (sid_seq st, empty_session, st\<lparr>sid_seq := Suc (sid_seq st)\<rparr>)
      | Some c \<Rightarrow>
          if store_fails srv e StoreGet then None
          else (case sessions st c of
                  Some s \<Rightarrow> Some (c, s, st)
                | None \<Rightarrow> Some (sid_seq st, empty_session, st\<lparr>sid_seq := Suc (sid_seq st)\<rparr>)))"

text \<open>
  One request. After the handler (\<^verbatim>\<open>resave: false, saveUninitialized: false\<close>) the
  session is written to the store and its cookie is sent exactly when the session
  still exists and its identifier or its content differs from what the middleware
  loaded. A failed lookup goes to the framework's error handler, which answers 500. A
  failed write is logged and changes nothing else. (A cookie marked secure is sent over
  an encrypted connection only; \<^verbatim>\<open>COOKIE_SECURE\<close> is taken to match the deployment.)
\<close>

definition serve ::
  "server \<Rightarrow> platform \<Rightarrow> env \<Rightarrow> endpoint \<Rightarrow> request \<Rightarrow> state \<Rightarrow> response \<times> state" where
  "serve srv P e ep r st =
     (case load_session srv e st (cookie r) of
        None \<Rightarrow> (json 500 ErrorPage, st)
      | Some (sid0, s0, st0) \<Rightarrow>
          (case handler srv P e ep
                  \<lparr>req_body = json_in r, sessionID = sid0, req_session = Some s0\<rparr> st0 of
             (resp, rq1, st1) \<Rightarrow>
               (case req_session rq1 of
                  None \<Rightarrow> (resp, st1)
                | Some s1 \<Rightarrow>
                    if sessionID rq1 \<noteq> sid0 \<or> s1 \<noteq> s0
                    then (resp\<lparr>set_cookie := Some (sessionID rq1)\<rparr>,
                          if store_fails srv e StoreSet then st1
                          else st1\<lparr>sessions := (sessions st1)(sessionID rq1 \<mapsto> s1)\<rparr>)
                    else (resp, st1))))"

text \<open>The server answering a sequence of requests, each in its own environment.\<close>

fun serve_all ::
  "server \<Rightarrow> platform \<Rightarrow> (env \<times> endpoint \<times> request) list \<Rightarrow> state \<Rightarrow> state" where
  "serve_all srv P [] st = st"
| "serve_all srv P ((e, ep, r) # rest) st = serve_all srv P rest (snd (serve srv P e ep r st))"

text \<open>
  The session store holds entries only under identifiers that have been issued. Every
  request keeps this (\<open>serve_store_wf\<close> below), and it holds at the start.
\<close>

definition store_wf :: "state \<Rightarrow> bool" where
  "store_wf st = (\<forall>s. sessions st s \<noteq> None \<longrightarrow> s < sid_seq st)"

subsection \<open>An instance for the worked scenarios\<close>

text \<open>
  The theorems below hold for every platform and every environment. The scenarios and
  the instances of the theorems need one of each to compute with. \<open>example_platform\<close>
  is not a model of the libraries: its JSON reader knows \<^verbatim>\<open>[]\<close>, a string literal
  without escapes and an array of one such literal, its JSON writer knows strings
  without escapes and arrays of them, its hash keeps the data before a \<open>$\<close> and the
  salt behind it, and its timestamps are written in unary.
\<close>

definition unquote :: "string \<Rightarrow> string option" where
  "unquote s =
     (case s of
        [] \<Rightarrow> None
      | c # rest \<Rightarrow>
          if c = CHR 0x22 \<and> rest \<noteq> [] \<and> last rest = CHR 0x22
             \<and> list_all (\<lambda>x. x \<noteq> CHR 0x22 \<and> x \<noteq> CHR 0x5C \<and> (32::nat) \<le> of_char x)
                  (butlast rest)
          then Some (butlast rest) else None)"

definition example_parse :: "string \<Rightarrow> jsval option" where
  "example_parse s =
     (if s = ''[]'' then Some (JArr [])
      else case unquote s of
             Some x \<Rightarrow> Some (JStr x)
           | None \<Rightarrow>
               (case s of
                  [] \<Rightarrow> None
                | c # rest \<Rightarrow>
                    if c = CHR ''['' \<and> rest \<noteq> [] \<and> last rest = CHR '']''
                    then map_option (\<lambda>x. JArr [JStr x]) (unquote (butlast rest))
                    else None))"

fun commas :: "string list \<Rightarrow> string" where
  "commas [] = []"
| "commas [x] = x"
| "commas (x # y # zs) = x @ '','' @ commas (y # zs)"

fun example_stringify :: "jsval \<Rightarrow> string" where
  "example_stringify (JStr s) = CHR 0x22 # s @ [CHR 0x22]"
| "example_stringify (JArr xs) = ''['' @ commas (map example_stringify xs) @ '']''"
| "example_stringify v = ''null''"

definition example_platform :: platform where
  "example_platform =
     \<lparr>JSON_parse = example_parse,
      JSON_stringify = example_stringify,
      bcrypt_hash = (\<lambda>data n. data @ ''$'' @ replicate n (CHR ''.'')),
      bcrypt_compare = (\<lambda>data h. takeWhile (\<lambda>c. c \<noteq> CHR ''$'') h = data),
      bind_text = (\<lambda>d v. None),
      parse_timestamp = (\<lambda>v. case v of JStr s \<Rightarrow> Some (length s) | _ \<Rightarrow> None),
      toISOString = (\<lambda>t. replicate t (CHR ''I''))\<rparr>"

text \<open>An environment in which nothing fails.\<close>

definition example_env :: env where
  "example_env = \<lparr>salt = 2, now = 5, db_fault = (\<lambda>q. False), store_fault = (\<lambda>op. False)\<rparr>"

text \<open>The credentials of the spec's scenario, and the stores once \<open>alice\<close> has registered.\<close>

definition alice_credentials :: jsval where
  "alice_credentials = JObj [(''username'', JStr ''alice''), (''password'', JStr ''secret123'')]"

definition alice_session :: session where
  "alice_session = \<lparr>userId = Some 1, username = JStr ''alice''\<rparr>"

definition alice_state :: state where
  "alice_state =
     \<lparr>users = [\<lparr>u_id = 1, u_username = ''alice'', u_password_hash = ''secret123$..''\<rparr>],
      users_seq = 1, games = [], games_seq = 0, snapshot = None,
      sessions = (\<lambda>s. None)(1 \<mapsto> alice_session), sid_seq = 2\<rparr>"

text \<open>An environment in which the session store cannot destroy an entry.\<close>

definition destroy_fails_env :: env where
  "destroy_fails_env =
     \<lparr>salt = 2, now = 5, db_fault = (\<lambda>q. False), store_fault = (\<lambda>op. op = StoreDestroy)\<rparr>"

definition bob_credentials :: jsval where
  "bob_credentials = JObj [(''username'', JStr ''bob''), (''password'', JStr ''hunter2'')]"

text \<open>The stores once \<open>bob\<close> has registered after \<open>alice\<close>.\<close>

definition bob_session :: session where
  "bob_session = \<lparr>userId = Some 2, username = JStr ''bob''\<rparr>"

definition bob_state :: state where
  "bob_state =
     \<lparr>users = [\<lparr>u_id = 1, u_username = ''alice'', u_password_hash = ''secret123$..''\<rparr>,
               \<lparr>u_id = 2, u_username = ''bob'', u_password_hash = ''hunter2$..''\<rparr>],
      users_seq = 2, games = [], games_seq = 0, snapshot = None,
      sessions = (\<lambda>s. None)(1 \<mapsto> alice_session, 3 \<mapsto> bob_session), sid_seq = 4\<rparr>"


definition lone_surrogate :: string where
  "lone_surrogate = [CHR 0xED, CHR 0xA0, CHR 0x80]"

definition replacement_character :: string where
  "replacement_character = [CHR 0xEF, CHR 0xBF, CHR 0xBD]"

definition surrogate_credentials :: jsval where
  "surrogate_credentials = JObj [(''username'', JStr lone_surrogate),
                                 (''password'', JStr ''hunter2'')]"

text \<open>The import of the spec's scenario: \<^verbatim>\<open>{games: [{pgn: "1.e4 e5", fens: "not-json"}]}\<close>.\<close>

definition not_json_import :: jsval where
  "not_json_import =
     JObj [(''games'', JArr [JObj [(''pgn'', JStr ''1.e4 e5''), (''fens'', JStr ''not-json'')]])]"

section \<open>Properties\<close>

subsection \<open>The text of a string parameter\<close>

text \<open>
  The database takes every string but, with Postgres, one that holds U+0000, and has
  its UTF-8; a string without the byte \<open>ED\<close> holds no surrogate and is its own UTF-8.
\<close>

lemma sql_text_string:
  "sql_text P d (JStr s) = Some t \<longleftrightarrow> \<not> (d = Pg \<and> CHR 0x00 \<in> set s) \<and> t = utf8_of s"
  by (auto simp: sql_text_def)

lemma sql_text_JStr:
  "sql_text P d (JStr s) = Some t \<Longrightarrow> t = utf8_of s"
  by (simp add: sql_text_string)

lemma sql_text_refused:
  "sql_text P d (JStr s) = None \<longleftrightarrow> d = Pg \<and> CHR 0x00 \<in> set s"
  by (simp add: sql_text_def)

lemma utf8_of_plain:
  "CHR 0xED \<notin> set s \<Longrightarrow> utf8_of s = s"
  by (induction s rule: utf8_of.induct) auto

subsection \<open>The scenario's first step\<close>

lemma register_alice:
  "serve srv example_platform example_env PostRegister
     \<lparr>cookie = None, json_in = alice_credentials\<rparr> initial_state
   = ((json 201 (UsernameJson (JStr ''alice'')))\<lparr>set_cookie := Some 1\<rparr>, alice_state)"
  by (cases srv)
     (simp_all add: serve_def load_session_def initial_state_def alice_credentials_def
        register_def js_or_def findUserByName_def sql_text_def example_env_def
        bcrypt_hash_call_def example_platform_def insertUser_def regenerate_def
        store_fails_def alice_state_def alice_session_def empty_session_def json_def
        numeral_2_eq_2 Let_def)

subsection \<open>The empty batch\<close>

lemma insertGamesBulk_empty:
  "\<not> db_fault e Connect \<Longrightarrow> \<not> db_fault e Begin \<Longrightarrow> \<not> db_fault e Commit \<Longrightarrow>
   insertGamesBulk srv P e uid [] st = (None, st\<lparr>snapshot := None\<rparr>)"
  by (cases srv) (simp_all add: db_insertGamesBulk_def queries_insertGamesBulk_def
      transaction_def sql_begin_def sql_commit_def)

text \<open>
  C9. An authenticated \<^verbatim>\<open>POST /api/import\<close> whose body is \<^verbatim>\<open>{games: []}\<close> answers 200
  \<^verbatim>\<open>{imported: 0}\<close>, not \<open>invalid_payload\<close>, and leaves the tables as they were. The
  request presents the cookie of a stored session that carries a user id; the session
  store answers the lookup and the database accepts \<open>BEGIN\<close> and \<open>COMMIT\<close>.
\<close>

theorem import_empty_batch:
  assumes "cookie r = Some c"
    and "sessions st c = Some s" and "userId s = Some n" and "n \<noteq> 0"
    and "js_get (json_in r) ''games'' = JArr []"
    and "\<not> store_fails srv e StoreGet"
    and "\<not> db_fault e Connect" and "\<not> db_fault e Begin" and "\<not> db_fault e Commit"
  shows "fst (serve srv P e PostImport r st) = json 200 (ImportedJson 0)
       \<and> games (snd (serve srv P e PostImport r st)) = games st
       \<and> users (snd (serve srv P e PostImport r st)) = users st
       \<and> sessions (snd (serve srv P e PostImport r st)) = sessions st"
proof -
  have b: "js_or (json_in r) (JObj []) = json_in r"
    using assms(5) by (cases "json_in r") (simp_all add: js_or_def)
  show ?thesis
    using assms
    by (simp add: serve_def load_session_def requireAuth_def import_games_def
        authenticated_def b insertGamesBulk_empty)
qed

theorem import_empty_batch_witness:
  "fst (serve ServerJs example_platform example_env PostImport
          \<lparr>cookie = Some 1, json_in = JObj [(''games'', JArr [])]\<rparr> alice_state)
     = json 200 (ImportedJson 0)
   \<and> games (snd (serve ServerJs example_platform example_env PostImport
          \<lparr>cookie = Some 1, json_in = JObj [(''games'', JArr [])]\<rparr> alice_state)) = []"
  using import_empty_batch [of "\<lparr>cookie = Some 1, json_in = JObj [(''games'', JArr [])]\<rparr>"
      1 alice_state alice_session 1 ServerJs example_env example_platform]
  by (simp add: alice_state_def alice_session_def store_fails_def example_env_def)

subsection \<open>The bulk insert is all or nothing\<close>

text \<open>
  One \<open>INSERT\<close> and each loop touch nothing but the table \<open>games\<close> and its sequence, and
  only append to the table.
\<close>

lemma insert_game_cases:
  "insert_game P e d i uid pgn fens created st = (r, st') \<Longrightarrow>
     snapshot st' = snapshot st \<and> users st' = users st \<and> sessions st' = sessions st
     \<and> sid_seq st' = sid_seq st \<and> users_seq st' = users_seq st
     \<and> (case r of
           Some x \<Rightarrow> games st' = games st
         | None \<Rightarrow> (\<exists>row. games st' = games st @ [row] \<and> g_user_id row = uid
                      \<and> sql_text P d (JStr fens) = Some (g_fens row)))"
  by (auto simp: insert_game_def split: if_splits option.splits)

lemma db_insert_loop_cases:
  "db_insert_loop P e uid i gs st = (r, st') \<Longrightarrow>
     snapshot st' = snapshot st \<and> users st' = users st \<and> sessions st' = sessions st
     \<and> sid_seq st' = sid_seq st \<and> users_seq st' = users_seq st
     \<and> (\<exists>rows. games st' = games st @ rows \<and> (\<forall>row \<in> set rows. g_user_id row = uid)
           \<and> (r = None \<longrightarrow> length rows = length gs))"
proof (induction gs arbitrary: i st)
  case Nil
  then show ?case by auto
next
  case (Cons g gs)
  show ?case
  proof (cases "nullish g")
    case True
    with Cons.prems show ?thesis by auto
  next
    case False
    let ?ins = "insert_game P e Pg i uid (js_or (js_get g ''pgn'') (JStr []))
                  (normalize_fens P (js_get g ''fens''))
                  (Some (js_or (js_get g ''date'')
                     (js_or (js_get g ''created_at'') (JStr (toISOString P (now e)))))) st"
    obtain r1 st1 where ins: "?ins = (r1, st1)" by (cases ?ins) auto
    note c1 = insert_game_cases [OF ins]
    show ?thesis
    proof (cases r1)
      case None
      with c1 obtain row where row: "games st1 = games st @ [row]" "g_user_id row = uid"
        by auto
      from Cons.prems False ins None
      have "db_insert_loop P e uid (Suc i) gs st1 = (r, st')"
        by (simp add: Let_def)
      from Cons.IH [OF this] c1 row show ?thesis
        by (auto simp: Let_def)
    next
      case (Some x)
      with Cons.prems False ins have "r = Some x" "st' = st1" by (auto simp: Let_def)
      with c1 Some show ?thesis by auto
    qed
  qed
qed

lemma queries_insert_loop_cases:
  "queries_insert_loop P e d uid i gs st = (r, st') \<Longrightarrow>
     snapshot st' = snapshot st \<and> users st' = users st \<and> sessions st' = sessions st
     \<and> sid_seq st' = sid_seq st \<and> users_seq st' = users_seq st
     \<and> (\<exists>rows. games st' = games st @ rows \<and> (\<forall>row \<in> set rows. g_user_id row = uid)
           \<and> (r = None \<longrightarrow> length rows = length gs))"
proof (induction gs arbitrary: i st)
  case Nil
  then show ?case by auto
next
  case (Cons g gs)
  show ?case
  proof (cases "nullish g")
    case True
    with Cons.prems show ?thesis by auto
  next
    case False
    let ?ins = "insert_game P e d i uid (js_or (js_get g ''pgn'') (JStr []))
                  (JSON_stringify P (js_or (js_get g ''fens'') (JArr []))) None st"
    obtain r1 st1 where ins: "?ins = (r1, st1)" by (cases ?ins) auto
    note c1 = insert_game_cases [OF ins]
    show ?thesis
    proof (cases r1)
      case None
      with c1 obtain row where row: "games st1 = games st @ [row]" "g_user_id row = uid"
        by auto
      from Cons.prems False ins None
      have "queries_insert_loop P e d uid (Suc i) gs st1 = (r, st')"
        by (simp add: Let_def)
      from Cons.IH [OF this] c1 row show ?thesis
        by (auto simp: Let_def)
    next
      case (Some x)
      with Cons.prems False ins have "r = Some x" "st' = st1" by (auto simp: Let_def)
      with c1 Some show ?thesis by auto
    qed
  qed
qed

lemma transaction_cases:
  assumes body: "\<And>s r s'. body s = (r, s') \<Longrightarrow>
            snapshot s' = snapshot s \<and> users s' = users s \<and> sessions s' = sessions s
          \<and> sid_seq s' = sid_seq s \<and> users_seq s' = users_seq s
          \<and> (\<exists>rows. games s' = games s @ rows \<and> (\<forall>row \<in> set rows. g_user_id row = uid)
                \<and> (r = None \<longrightarrow> length rows = n))"
    and run: "transaction e d body st = (r, st')"
  shows "snapshot st' = None \<and> users st' = users st \<and> sessions st' = sessions st
       \<and> sid_seq st' = sid_seq st \<and> users_seq st' = users_seq st
       \<and> (case r of
             Some x \<Rightarrow> games st' = games st
           | None \<Rightarrow> (\<exists>rows. games st' = games st @ rows \<and> length rows = n
                        \<and> (\<forall>row \<in> set rows. g_user_id row = uid)))"
proof (cases "db_fault e Begin")
  case True
  with run show ?thesis
    by (auto simp: transaction_def sql_begin_def sql_rollback_def)
next
  case False
  let ?s1 = "st\<lparr>snapshot := Some (games st, games_seq st)\<rparr>"
  obtain r2 st2 where b: "body ?s1 = (r2, st2)" by (cases "body ?s1") auto
  note c = body [OF b]
  show ?thesis
  proof (cases r2)
    case (Some x)
    with run False b c show ?thesis
      by (auto simp: transaction_def sql_begin_def sql_rollback_def)
  next
    case None
    with run False b c show ?thesis
      by (auto simp: transaction_def sql_begin_def sql_commit_def sql_rollback_def
          split: if_splits)
  qed
qed

lemma insertGamesBulk_cases:
  assumes run: "insertGamesBulk srv P e uid gs st = (r, st')"
  shows "users st' = users st \<and> sessions st' = sessions st
       \<and> sid_seq st' = sid_seq st \<and> users_seq st' = users_seq st
       \<and> (snapshot st' = None \<or> st' = st)
       \<and> (case r of
             Some x \<Rightarrow> games st' = games st
           | None \<Rightarrow> (\<exists>rows. games st' = games st @ rows \<and> length rows = length gs
                        \<and> (\<forall>row \<in> set rows. g_user_id row = uid)))"
proof (cases srv)
  case ServerJs
  show ?thesis
  proof (cases "db_fault e Connect")
    case True
    with run ServerJs show ?thesis by (auto simp: db_insertGamesBulk_def)
  next
    case False
    with run ServerJs
    have "transaction e Pg (db_insert_loop P e uid 0 gs) st = (r, st')"
      by (simp add: db_insertGamesBulk_def)
    from transaction_cases [OF db_insert_loop_cases this] show ?thesis by simp
  qed
next
  case (DualMode d)
  show ?thesis
  proof (cases "d = Pg \<and> db_fault e Connect")
    case True
    with run DualMode show ?thesis by (auto simp: queries_insertGamesBulk_def)
  next
    case False
    with run DualMode
    have "transaction e d (queries_insert_loop P e d uid 0 gs) st = (r, st')"
      by (auto simp add: queries_insertGamesBulk_def)
    from transaction_cases [OF queries_insert_loop_cases this] show ?thesis by simp
  qed
qed

text \<open>
  C3. Every \<^verbatim>\<open>insertGamesBulk\<close> is all or nothing. When the call throws, for whatever
  record and whatever reason, the table \<open>games\<close> is as it was before the call, the
  connection has no transaction open when the error surfaces (or nothing was sent at
  all), and \<^verbatim>\<open>getGamesByUser\<close>, which \<^verbatim>\<open>GET /api/games\<close> answers with, returns for
  every owner what it returned before. When the call returns, it has appended one row
  per record of the batch, each owned by the caller. (Requests are answered one after
  the other here; what another connection sees while the transaction is open is the
  database's isolation.)
\<close>

theorem insertGamesBulk_atomic:
  assumes "insertGamesBulk srv P e uid gs st = (r, st')"
  shows "case r of
           Some x \<Rightarrow>
             games st' = games st \<and> (snapshot st' = None \<or> st' = st)
             \<and> (\<forall>e2 u. getGamesByUser P e2 u st' = getGamesByUser P e2 u st)
         | None \<Rightarrow>
             (\<exists>rows. games st' = games st @ rows \<and> length rows = length gs
                \<and> (\<forall>row \<in> set rows. g_user_id row = uid))"
  using insertGamesBulk_cases [OF assms]
  by (cases r) (auto simp: getGamesByUser_def)

theorem insertGamesBulk_atomic_witness:
  "insertGamesBulk ServerJs example_platform example_env 1
     [JObj [(''pgn'', JStr ''1.e4 e5''), (''fens'', JStr ''not-json'')], JNull] alice_state
   = (Some TypeError, alice_state\<lparr>games_seq := 1\<rparr>)
   \<and> games (alice_state\<lparr>games_seq := 1\<rparr>) = games alice_state
   \<and> getGamesByUser example_platform example_env 1 (alice_state\<lparr>games_seq := 1\<rparr>)
       = getGamesByUser example_platform example_env 1 alice_state"
proof -
  have run: "insertGamesBulk ServerJs example_platform example_env 1
      [JObj [(''pgn'', JStr ''1.e4 e5''), (''fens'', JStr ''not-json'')], JNull] alice_state
    = (Some TypeError, alice_state\<lparr>games_seq := 1\<rparr>)"
    by (simp add: db_insertGamesBulk_def transaction_def sql_begin_def sql_rollback_def
        insert_game_def sql_text_def js_or_def normalize_fens_def example_platform_def
        example_parse_def unquote_def example_env_def alice_state_def Let_def)
  from insertGamesBulk_atomic [OF run] run show ?thesis by simp
qed

subsection \<open>Failed logins\<close>

text \<open>The middleware hands the handler a session whenever the store answers.\<close>

lemma load_session_cases:
  assumes "\<not> store_fails srv e StoreGet"
  shows "\<exists>sid0 s0 st0. load_session srv e st ck = Some (sid0, s0, st0)
    \<and> ((ck = Some sid0 \<and> sessions st sid0 = Some s0 \<and> st0 = st)
         \<or> (sid0 = sid_seq st \<and> s0 = empty_session \<and> st0 = st\<lparr>sid_seq := Suc (sid_seq st)\<rparr>
             \<and> (\<forall>c. ck = Some c \<longrightarrow> sessions st c = None)))"
  using assms by (simp add: load_session_def split: option.splits)







subsection \<open>Identity and regenerated identifiers\<close>

text \<open>What \<^verbatim>\<open>insertUser\<close>, \<^verbatim>\<open>regenerate\<close>, register and login do, case by case.\<close>

lemma insertUser_cases:
  "insertUser P e d v h st = (r, st') \<Longrightarrow>
     sessions st' = sessions st \<and> sid_seq st' = sid_seq st \<and> games st' = games st
     \<and> games_seq st' = games_seq st \<and> snapshot st' = snapshot st
     \<and> (case r of
           Inl x \<Rightarrow> users st' = users st
         | Inr newId \<Rightarrow>
             newId = Suc (users_seq st) \<and> users_seq st' = newId
             \<and> (\<exists>t. sql_text P d v = Some t \<and> t \<notin> set (map u_username (users st))
                  \<and> users st' = users st @
                       [\<lparr>u_id = newId, u_username = t, u_password_hash = h\<rparr>]))"
  by (simp add: insertUser_def split: if_splits option.splits) auto

lemma regenerate_eq:
  "regenerate srv e rq st =
     (store_fails srv e StoreDestroy,
      rq\<lparr>sessionID := sid_seq st, req_session := Some empty_session\<rparr>,
      (if store_fails srv e StoreDestroy then st
       else st\<lparr>sessions := (sessions st)(sessionID rq := None)\<rparr>)\<lparr>sid_seq := Suc (sid_seq st)\<rparr>)"
  by (simp add: regenerate_def Let_def)

lemma register_cases:
  assumes "register srv P e rq st = (resp, rq', st')"
  shows "(status resp \<noteq> 201 \<and> content resp \<noteq> ErrorJson ''session_error''
          \<and> rq' = rq \<and> sessions st' = sessions st \<and> sid_seq st' = sid_seq st
          \<and> games st' = games st \<and> users st' = users st)
       \<or> (resp = json 500 (ErrorJson ''session_error'') \<and> store_fails srv e StoreDestroy
          \<and> rq' = rq\<lparr>sessionID := sid_seq st, req_session := Some empty_session\<rparr>
          \<and> sessions st' = sessions st \<and> sid_seq st' = Suc (sid_seq st)
          \<and> games st' = games st
          \<and> (\<exists>t h. find (\<lambda>r. u_username r = t) (users st) = None
                 \<and> users st' = users st @
                      [\<lparr>u_id = Suc (users_seq st), u_username = t, u_password_hash = h\<rparr>]))
       \<or> (\<exists>t h. resp = json 201 (UsernameJson (js_get (js_or (req_body rq) (JObj [])) ''username''))
          \<and> \<not> store_fails srv e StoreDestroy
          \<and> rq' = rq\<lparr>sessionID := sid_seq st,
                     req_session := Some \<lparr>userId = Some (Suc (users_seq st)),
                       username = js_get (js_or (req_body rq) (JObj [])) ''username''\<rparr>\<rparr>
          \<and> sessions st' = (sessions st)(sessionID rq := None)
          \<and> sid_seq st' = Suc (sid_seq st) \<and> games st' = games st
          \<and> \<not> register_rejects srv (js_get (js_or (req_body rq) (JObj [])) ''username'')
                 (js_get (js_or (req_body rq) (JObj [])) ''password'')
          \<and> sql_text P (driver_of srv) (js_get (js_or (req_body rq) (JObj [])) ''username'') = Some t
          \<and> bcrypt_hash_call P e (js_get (js_or (req_body rq) (JObj [])) ''password'') = Inr h
          \<and> find (\<lambda>r. u_username r = t) (users st) = None
          \<and> users st' = users st @
               [\<lparr>u_id = Suc (users_seq st), u_username = t, u_password_hash = h\<rparr>])"
proof -
  let ?u = "js_get (js_or (req_body rq) (JObj [])) ''username''"
  let ?p = "js_get (js_or (req_body rq) (JObj [])) ''password''"
  have unchanged: ?thesis
    if "register srv P e rq st = (json code (ErrorJson msg), rq, s)"
      and "code \<noteq> 201" and "msg \<noteq> ''session_error''"
      and "sessions s = sessions st" and "sid_seq s = sid_seq st"
      and "games s = games st" and "users s = users st" for code msg s
  proof -
    from that(1) assms have "resp = json code (ErrorJson msg)" "rq' = rq" "st' = s"
      by simp_all
    with that(2-) show ?thesis by (simp add: json_def)
  qed
  show ?thesis
  proof (cases "register_rejects srv ?u ?p")
    case True
    then have "register srv P e rq st
        = (json 400 (ErrorJson ''username_and_password_required''), rq, st)"
      by (simp add: register_def Let_def)
    then show ?thesis by (rule unchanged) simp_all
  next
    case nrej: False
    show ?thesis
    proof (cases "findUserByName P e (driver_of srv) ?u st")
      case (Inl x)
      with nrej have "register srv P e rq st = (json 500 (ErrorJson ''internal''), rq, st)"
        by (simp add: register_def Let_def)
      then show ?thesis by (rule unchanged) simp_all
    next
      case (Inr found)
      show ?thesis
      proof (cases found)
        case (Some existing)
        with nrej Inr
        have "register srv P e rq st = (json 409 (ErrorJson ''username_taken''), rq, st)"
          by (simp add: register_def Let_def)
        then show ?thesis by (rule unchanged) simp_all
      next
        case None
        show ?thesis
        proof (cases "bcrypt_hash_call P e ?p")
          case (Inl x)
          with nrej Inr None
          have "register srv P e rq st = (json 500 (ErrorJson ''internal''), rq, st)"
            by (simp add: register_def Let_def)
          then show ?thesis by (rule unchanged) simp_all
        next
          case hash: (Inr h)
          obtain r1 st1 where ins: "insertUser P e (driver_of srv) ?u h st = (r1, st1)"
            by (cases "insertUser P e (driver_of srv) ?u h st") auto
          note c = insertUser_cases [OF ins]
          show ?thesis
          proof (cases r1)
            case (Inl x)
            with nrej Inr None hash ins
            have r: "register srv P e rq st = (json 500 (ErrorJson ''internal''), rq, st1)"
              by (simp add: register_def Let_def)
            from c Inl have k: "sessions st1 = sessions st" "sid_seq st1 = sid_seq st"
              "games st1 = games st" "users st1 = users st" by simp_all
            show ?thesis by (rule unchanged [OF r _ _ k]) simp_all
          next
            case newid: (Inr newId)
            from Inr None obtain t where t: "sql_text P (driver_of srv) ?u = Some t"
              "find (\<lambda>r. u_username r = t) (users st) = None"
              by (simp add: findUserByName_def split: if_splits option.splits)
            from c newid t have new: "newId = Suc (users_seq st)"
              "users st1 = users st @
                 [\<lparr>u_id = Suc (users_seq st), u_username = t, u_password_hash = h\<rparr>]"
              "sessions st1 = sessions st" "sid_seq st1 = sid_seq st" "games st1 = games st"
              by auto
            show ?thesis
            proof (cases "store_fails srv e StoreDestroy")
              case True
              with nrej Inr None hash ins newid
              have "register srv P e rq st
                  = (json 500 (ErrorJson ''session_error''),
                     rq\<lparr>sessionID := sid_seq st1, req_session := Some empty_session\<rparr>,
                     st1\<lparr>sid_seq := Suc (sid_seq st1)\<rparr>)"
                by (simp add: register_def Let_def regenerate_eq)
              with assms True new t show ?thesis by auto
            next
              case False
              with nrej Inr None hash ins newid
              have "register srv P e rq st
                  = (json 201 (UsernameJson ?u),
                     rq\<lparr>sessionID := sid_seq st1,
                        req_session := Some \<lparr>userId = Some newId, username = ?u\<rparr>\<rparr>,
                     st1\<lparr>sessions := (sessions st1)(sessionID rq := None),
                         sid_seq := Suc (sid_seq st1)\<rparr>)"
                by (simp add: register_def Let_def regenerate_eq)
              with assms False new nrej t hash show ?thesis by auto
            qed
          qed
        qed
      qed
    qed
  qed
qed

lemma login_cases:
  assumes "login srv P e rq st = (resp, rq', st')"
  shows "(status resp \<noteq> 200 \<and> content resp \<noteq> ErrorJson ''session_error''
          \<and> rq' = rq \<and> st' = st)
       \<or> (resp = json 500 (ErrorJson ''session_error'') \<and> store_fails srv e StoreDestroy
          \<and> rq' = rq\<lparr>sessionID := sid_seq st, req_session := Some empty_session\<rparr>
          \<and> st' = st\<lparr>sid_seq := Suc (sid_seq st)\<rparr>)
       \<or> (\<exists>user. resp = json 200 (UsernameJson (JStr (u_username user)))
          \<and> \<not> store_fails srv e StoreDestroy
          \<and> rq' = rq\<lparr>sessionID := sid_seq st,
                     req_session := Some \<lparr>userId = Some (u_id user),
                                          username = JStr (u_username user)\<rparr>\<rparr>
          \<and> st' = st\<lparr>sessions := (sessions st)(sessionID rq := None),
                      sid_seq := Suc (sid_seq st)\<rparr>
          \<and> findUserByName P e (driver_of srv)
                (js_get (js_or (req_body rq) (JObj [])) ''username'') st = Inr (Some user)
          \<and> bcrypt_compare_call P (js_get (js_or (req_body rq) (JObj [])) ''password'')
                (u_password_hash user) = Inr True)"
proof -
  let ?u = "js_get (js_or (req_body rq) (JObj [])) ''username''"
  let ?p = "js_get (js_or (req_body rq) (JObj [])) ''password''"
  have unchanged: ?thesis
    if "login srv P e rq st = (json code (ErrorJson msg), rq, st)"
      and "code \<noteq> 200" and "msg \<noteq> ''session_error''" for code msg
  proof -
    from that(1) assms have "resp = json code (ErrorJson msg)" "rq' = rq" "st' = st"
      by simp_all
    with that(2,3) show ?thesis by (simp add: json_def)
  qed
  show ?thesis
  proof (cases "\<not> truthy ?u \<or> \<not> truthy ?p")
    case True
    then have "login srv P e rq st
        = (json 400 (ErrorJson ''username_and_password_required''), rq, st)"
      by (simp add: login_def Let_def)
    then show ?thesis by (rule unchanged) simp_all
  next
    case valid: False
    show ?thesis
    proof (cases "findUserByName P e (driver_of srv) ?u st")
      case (Inl x)
      with valid have "login srv P e rq st = (json 500 (ErrorJson ''internal''), rq, st)"
        by (simp add: login_def Let_def)
      then show ?thesis by (rule unchanged) simp_all
    next
      case (Inr found)
      show ?thesis
      proof (cases found)
        case None
        with valid Inr
        have "login srv P e rq st = (json 401 (ErrorJson ''invalid_credentials''), rq, st)"
          by (simp add: login_def Let_def)
        then show ?thesis by (rule unchanged) simp_all
      next
        case (Some user)
        show ?thesis
        proof (cases "bcrypt_compare_call P ?p (u_password_hash user)")
          case (Inl x)
          with valid Inr Some
          have "login srv P e rq st = (json 500 (ErrorJson ''internal''), rq, st)"
            by (simp add: login_def Let_def)
          then show ?thesis by (rule unchanged) simp_all
        next
          case cmp: (Inr ok)
          show ?thesis
          proof (cases ok)
            case False
            with valid Inr Some cmp
            have "login srv P e rq st = (json 401 (ErrorJson ''invalid_credentials''), rq, st)"
              by (simp add: login_def Let_def)
            then show ?thesis by (rule unchanged) simp_all
          next
            case True
            show ?thesis
            proof (cases "store_fails srv e StoreDestroy")
              case fails: True
              with valid Inr Some cmp True
              have "login srv P e rq st
                  = (json 500 (ErrorJson ''session_error''),
                     rq\<lparr>sessionID := sid_seq st, req_session := Some empty_session\<rparr>,
                     st\<lparr>sid_seq := Suc (sid_seq st)\<rparr>)"
                by (simp add: login_def Let_def regenerate_eq)
              with assms fails show ?thesis by simp
            next
              case False
              with valid Inr Some cmp True
              have "login srv P e rq st
                  = (json 200 (UsernameJson (JStr (u_username user))),
                     rq\<lparr>sessionID := sid_seq st,
                        req_session := Some \<lparr>userId = Some (u_id user),
                                             username = JStr (u_username user)\<rparr>\<rparr>,
                     st\<lparr>sessions := (sessions st)(sessionID rq := None),
                        sid_seq := Suc (sid_seq st)\<rparr>)"
                by (simp add: login_def Let_def regenerate_eq)
              with assms False Inr Some cmp True show ?thesis by auto
            qed
          qed
        qed
      qed
    qed
  qed
qed

lemma load_session_Some:
  assumes "load_session srv e st ck = Some (sid0, s0, st0)"
  shows "users st0 = users st \<and> games st0 = games st \<and> sessions st0 = sessions st
       \<and> users_seq st0 = users_seq st \<and> sid_seq st \<le> sid_seq st0
       \<and> ((ck = Some sid0 \<and> sessions st sid0 = Some s0 \<and> st0 = st)
           \<or> (sid0 = sid_seq st \<and> s0 = empty_session
               \<and> st0 = st\<lparr>sid_seq := Suc (sid_seq st)\<rparr>
               \<and> (\<forall>c. ck = Some c \<longrightarrow> sessions st c = None)))"
proof (cases ck)
  case None
  with assms show ?thesis by (auto simp: load_session_def)
next
  case (Some c)
  with assms have nf: "\<not> store_fails srv e StoreGet"
    by (auto simp: load_session_def split: if_splits)
  show ?thesis
  proof (cases "sessions st c")
    case None
    with assms Some nf show ?thesis by (auto simp: load_session_def)
  next
    case found: (Some s)
    with assms Some nf show ?thesis by (auto simp: load_session_def)
  qed
qed

lemma requireAuth_cases:
  "requireAuth h rq st = (resp, rq', st') \<Longrightarrow>
     (rq' = rq \<and> st' = st) \<or> h rq st = (resp, rq', st')"
  by (simp add: requireAuth_def split: if_splits)

lemma import_games_cases:
  assumes "import_games srv P e rq st = (resp, rq', st')"
  shows "rq' = rq \<and> users st' = users st \<and> sessions st' = sessions st
       \<and> sid_seq st' = sid_seq st"
proof (cases "js_get (js_or (req_body rq) (JObj [])) ''games''")
  case (JArr gs)
  obtain r1 st1 where b: "insertGamesBulk srv P e (session_userId rq) gs st = (r1, st1)"
    by (cases "insertGamesBulk srv P e (session_userId rq) gs st") auto
  from insertGamesBulk_cases [OF b]
  have k: "users st1 = users st" "sessions st1 = sessions st" "sid_seq st1 = sid_seq st"
    by simp_all
  from assms JArr b have "rq' = rq" "st' = st1"
    by (cases r1; simp add: import_games_def)+
  with k show ?thesis by simp
qed (use assms in \<open>simp_all add: import_games_def\<close>)

lemma list_games_cases:
  "list_games P e rq st = (resp, rq', st') \<Longrightarrow> rq' = rq \<and> st' = st"
  by (simp add: list_games_def split: sum.splits)

text \<open>
  What a handler can do to the session: leave it, destroy it, or replace it by one with
  an identifier that was never issued. The store loses at most the entry of the
  request's identifier.
\<close>

lemma handler_session_effect:
  assumes "handler srv P e ep rq st = (resp, rq', st')"
  shows "(sessions st' = sessions st \<or> sessions st' = (sessions st)(sessionID rq := None))
       \<and> ((rq' = rq \<and> sid_seq st' = sid_seq st)
           \<or> (req_session rq' = None \<and> sid_seq st' = sid_seq st)
           \<or> (sessionID rq' = sid_seq st \<and> sid_seq st' = Suc (sid_seq st)))"
proof (cases ep)
  case GetMe
  with assms show ?thesis by (auto simp: me_def split: if_splits)
next
  case PostRegister
  with assms have "register srv P e rq st = (resp, rq', st')" by simp
  from register_cases [OF this] show ?thesis by (elim disjE exE conjE) simp_all
next
  case PostLogin
  with assms have "login srv P e rq st = (resp, rq', st')" by simp
  from login_cases [OF this] show ?thesis by (elim disjE exE conjE) simp_all
next
  case PostLogout
  with assms show ?thesis
    by (auto simp: logout_def destroy_def Let_def split: if_splits)
next
  case PostImport
  with assms have "requireAuth (import_games srv P e) rq st = (resp, rq', st')" by simp
  from requireAuth_cases [OF this] import_games_cases show ?thesis by blast
next
  case GetGames
  with assms have "requireAuth (list_games P e) rq st = (resp, rq', st')" by simp
  from requireAuth_cases [OF this] list_games_cases show ?thesis by blast
qed

text \<open>One request, taken apart.\<close>

lemma serve_cases:
  assumes "serve srv P e ep r st = (resp, st')"
  shows "(load_session srv e st (cookie r) = None \<and> resp = json 500 ErrorPage \<and> st' = st)
       \<or> (\<exists>sid0 s0 st0 resp1 rq1 st1.
            load_session srv e st (cookie r) = Some (sid0, s0, st0)
          \<and> handler srv P e ep
               \<lparr>req_body = json_in r, sessionID = sid0, req_session = Some s0\<rparr> st0
               = (resp1, rq1, st1)
          \<and> ((req_session rq1 = None \<and> resp = resp1 \<and> st' = st1)
             \<or> (req_session rq1 = Some s0 \<and> sessionID rq1 = sid0 \<and> resp = resp1 \<and> st' = st1)
             \<or> (\<exists>s1. req_session rq1 = Some s1 \<and> \<not> (sessionID rq1 = sid0 \<and> s1 = s0)
                  \<and> resp = resp1\<lparr>set_cookie := Some (sessionID rq1)\<rparr>
                  \<and> st' = (if store_fails srv e StoreSet then st1
                           else st1\<lparr>sessions := (sessions st1)(sessionID rq1 \<mapsto> s1)\<rparr>))))"
proof (cases "load_session srv e st (cookie r)")
  case None
  with assms show ?thesis by (simp add: serve_def)
next
  case (Some l)
  obtain sid0 s0 st0 where l: "l = (sid0, s0, st0)" by (cases l) auto
  let ?rq = "\<lparr>req_body = json_in r, sessionID = sid0, req_session = Some s0\<rparr>"
  obtain resp1 rq1 st1 where h: "handler srv P e ep ?rq st0 = (resp1, rq1, st1)"
    by (cases "handler srv P e ep ?rq st0") auto
  show ?thesis
  proof (cases "req_session rq1")
    case None
    with assms Some l h show ?thesis by (simp add: serve_def)
  next
    case s1: (Some s1)
    show ?thesis
    proof (cases "sessionID rq1 \<noteq> sid0 \<or> s1 \<noteq> s0")
      case True
      with assms Some l h s1 have "resp = resp1\<lparr>set_cookie := Some (sessionID rq1)\<rparr>"
        "st' = (if store_fails srv e StoreSet then st1
                else st1\<lparr>sessions := (sessions st1)(sessionID rq1 \<mapsto> s1)\<rparr>)"
        by (simp_all add: serve_def)
      with Some l h s1 True show ?thesis by blast
    next
      case False
      with assms Some l h s1 have "resp = resp1" "st' = st1"
        by (simp_all add: serve_def)
      with Some l h s1 False show ?thesis by simp
    qed
  qed
qed

text \<open>No request writes a session under an identifier that was issued before it.\<close>

lemma removed_or_same:
  "f' = f \<or> f' = f(a := None) \<Longrightarrow> f' s = f s \<or> f' s = None"
  by (auto split: if_splits)

lemma serve_issued_sessions:
  assumes run: "serve srv P e ep r st = (resp, st')" and old: "s < sid_seq st"
  shows "sessions st' s = sessions st s \<or> sessions st' s = None"
proof -
  from serve_cases [OF run] show ?thesis
  proof (elim disjE exE conjE)
    assume "st' = st"
    then show ?thesis by simp
  next
    fix sid0 s0 st0 resp1 rq1 st1
    assume l: "load_session srv e st (cookie r) = Some (sid0, s0, st0)"
      and h: "handler srv P e ep
                \<lparr>req_body = json_in r, sessionID = sid0, req_session = Some s0\<rparr> st0
              = (resp1, rq1, st1)"
      and "st' = st1"
    with load_session_Some [OF l] handler_session_effect [OF h] show ?thesis
      by (intro removed_or_same [where a = sid0]) simp
  next
    fix sid0 s0 st0 resp1 rq1 st1
    assume l: "load_session srv e st (cookie r) = Some (sid0, s0, st0)"
      and h: "handler srv P e ep
                \<lparr>req_body = json_in r, sessionID = sid0, req_session = Some s0\<rparr> st0
              = (resp1, rq1, st1)"
      and "st' = st1"
    with load_session_Some [OF l] handler_session_effect [OF h] show ?thesis
      by (intro removed_or_same [where a = sid0]) simp
  next
    fix sid0 s0 st0 resp1 rq1 st1 s1
    assume l: "load_session srv e st (cookie r) = Some (sid0, s0, st0)"
      and h: "handler srv P e ep
                \<lparr>req_body = json_in r, sessionID = sid0, req_session = Some s0\<rparr> st0
              = (resp1, rq1, st1)"
      and s1: "req_session rq1 = Some s1" and ch: "\<not> (sessionID rq1 = sid0 \<and> s1 = s0)"
      and st': "st' = (if store_fails srv e StoreSet then st1
                       else st1\<lparr>sessions := (sessions st1)(sessionID rq1 \<mapsto> s1)\<rparr>)"
    note ls = load_session_Some [OF l] and eff = handler_session_effect [OF h]
    from eff s1 ch have fresh: "sessionID rq1 = sid_seq st0" by auto
    with ls old have "sessionID rq1 \<noteq> s" by simp
    with st' have "sessions st' s = sessions st1 s" by simp
    moreover from ls eff have "sessions st1 s = sessions st s \<or> sessions st1 s = None"
      by (intro removed_or_same [where a = sid0]) simp
    ultimately show ?thesis by simp
  qed
qed

text \<open>
  A handler that replaces the session leaves it empty, unless it is a register that
  answers 201 or a login that answers 200.
\<close>

lemma handler_new_session:
  assumes run: "handler srv P e ep rq st = (resp, rq', st')"
    and d: "req_session rq' = Some d"
    and ch: "\<not> (sessionID rq' = sessionID rq \<and> req_session rq' = req_session rq)"
  shows "d = empty_session \<or> (ep = PostRegister \<and> status resp = 201)
       \<or> (ep = PostLogin \<and> status resp = 200)"
proof (cases ep)
  case GetMe
  with run have "rq' = rq" by (auto simp: me_def split: if_splits)
  with ch show ?thesis by simp
next
  case PostRegister
  with run have "register srv P e rq st = (resp, rq', st')" by simp
  from register_cases [OF this] d ch PostRegister show ?thesis
    by (elim disjE exE conjE) (simp_all add: json_def)
next
  case PostLogin
  with run have "login srv P e rq st = (resp, rq', st')" by simp
  from login_cases [OF this] d ch PostLogin show ?thesis
    by (elim disjE exE conjE) (simp_all add: json_def)
next
  case PostLogout
  with run have "req_session rq' = None"
    by (auto simp: logout_def destroy_def Let_def split: if_splits)
  with d show ?thesis by simp
next
  case PostImport
  with run have "requireAuth (import_games srv P e) rq st = (resp, rq', st')" by simp
  from requireAuth_cases [OF this] import_games_cases have "rq' = rq" by blast
  with ch show ?thesis by simp
next
  case GetGames
  with run have "requireAuth (list_games P e) rq st = (resp, rq', st')" by simp
  from requireAuth_cases [OF this] list_games_cases have "rq' = rq" by blast
  with ch show ?thesis by simp
qed

text \<open>
  A session that a request has written is under an identifier that had not been issued,
  and carries an identity only after a register that answered 201 or a login that
  answered 200.
\<close>

lemma serve_written_session:
  assumes run: "serve srv P e ep r st = (resp, st')"
    and new: "sessions st' s = Some d" and diff: "sessions st s \<noteq> Some d"
  shows "sid_seq st \<le> s
       \<and> (d = empty_session \<or> (ep = PostRegister \<and> status resp = 201)
           \<or> (ep = PostLogin \<and> status resp = 200))"
proof -
  from serve_cases [OF run] show ?thesis
  proof (elim disjE exE conjE)
    assume "st' = st"
    with new diff show ?thesis by simp
  next
    fix sid0 s0 st0 resp1 rq1 st1
    assume l: "load_session srv e st (cookie r) = Some (sid0, s0, st0)"
      and h: "handler srv P e ep
                \<lparr>req_body = json_in r, sessionID = sid0, req_session = Some s0\<rparr> st0
              = (resp1, rq1, st1)"
      and st': "st' = st1"
    from load_session_Some [OF l] handler_session_effect [OF h]
    have "sessions st1 s = sessions st s \<or> sessions st1 s = None"
      by (intro removed_or_same [where a = sid0]) simp
    with st' new diff show ?thesis by auto
  next
    fix sid0 s0 st0 resp1 rq1 st1
    assume l: "load_session srv e st (cookie r) = Some (sid0, s0, st0)"
      and h: "handler srv P e ep
                \<lparr>req_body = json_in r, sessionID = sid0, req_session = Some s0\<rparr> st0
              = (resp1, rq1, st1)"
      and st': "st' = st1"
    from load_session_Some [OF l] handler_session_effect [OF h]
    have "sessions st1 s = sessions st s \<or> sessions st1 s = None"
      by (intro removed_or_same [where a = sid0]) simp
    with st' new diff show ?thesis by auto
  next
    fix sid0 s0 st0 resp1 rq1 st1 s1
    assume l: "load_session srv e st (cookie r) = Some (sid0, s0, st0)"
      and h: "handler srv P e ep
                \<lparr>req_body = json_in r, sessionID = sid0, req_session = Some s0\<rparr> st0
              = (resp1, rq1, st1)"
      and s1: "req_session rq1 = Some s1" and ch: "\<not> (sessionID rq1 = sid0 \<and> s1 = s0)"
      and resp: "resp = resp1\<lparr>set_cookie := Some (sessionID rq1)\<rparr>"
      and st': "st' = (if store_fails srv e StoreSet then st1
                       else st1\<lparr>sessions := (sessions st1)(sessionID rq1 \<mapsto> s1)\<rparr>)"
    note ls = load_session_Some [OF l] and eff = handler_session_effect [OF h]
    from ls eff have old: "sessions st1 s = sessions st s \<or> sessions st1 s = None"
      by (intro removed_or_same [where a = sid0]) simp
    from eff s1 ch have fresh: "sessionID rq1 = sid_seq st0" by auto
    from old new diff have "sessions st' s \<noteq> sessions st1 s" by auto
    with st' have here: "s = sessionID rq1" "d = s1"
      using new by (auto split: if_splits)
    from ch s1 have "\<not> (sessionID rq1
          = sessionID \<lparr>req_body = json_in r, sessionID = sid0, req_session = Some s0\<rparr>
        \<and> req_session rq1
          = req_session \<lparr>req_body = json_in r, sessionID = sid0, req_session = Some s0\<rparr>)"
      by simp
    from handler_new_session [OF h s1 this]
    have "s1 = empty_session \<or> (ep = PostRegister \<and> status resp1 = 201)
        \<or> (ep = PostLogin \<and> status resp1 = 200)" .
    with here fresh ls resp show ?thesis by auto
  qed
qed

text \<open>What a register that answers 201 and a login that answers 200 leave behind.\<close>

lemma serve_binds_fresh:
  assumes run: "serve srv P e ep r st = (resp, st')" and wf: "store_wf st"
    and ok: "(ep = PostRegister \<and> status resp = 201) \<or> (ep = PostLogin \<and> status resp = 200)"
  shows "\<exists>new d. set_cookie resp = Some new \<and> sid_seq st \<le> new \<and> new < sid_seq st'
           \<and> userId d \<noteq> None
           \<and> (store_fails srv e StoreSet \<or> sessions st' new = Some d)
           \<and> (\<forall>c. cookie r = Some c \<and> c < sid_seq st \<longrightarrow> sessions st' c = None)"
proof -
  from ok have nz: "status resp \<noteq> 500" by auto
  from serve_cases [OF run] nz
  obtain sid0 s0 st0 resp1 rq1 st1 where
    l: "load_session srv e st (cookie r) = Some (sid0, s0, st0)"
    and h: "handler srv P e ep
              \<lparr>req_body = json_in r, sessionID = sid0, req_session = Some s0\<rparr> st0
            = (resp1, rq1, st1)"
    and fin: "(req_session rq1 = None \<and> resp = resp1 \<and> st' = st1)
             \<or> (req_session rq1 = Some s0 \<and> sessionID rq1 = sid0 \<and> resp = resp1 \<and> st' = st1)
             \<or> (\<exists>s1. req_session rq1 = Some s1 \<and> \<not> (sessionID rq1 = sid0 \<and> s1 = s0)
                  \<and> resp = resp1\<lparr>set_cookie := Some (sessionID rq1)\<rparr>
                  \<and> st' = (if store_fails srv e StoreSet then st1
                           else st1\<lparr>sessions := (sessions st1)(sessionID rq1 \<mapsto> s1)\<rparr>))"
    by (auto simp: json_def)
  let ?rq = "\<lparr>req_body = json_in r, sessionID = sid0, req_session = Some s0\<rparr>"
  note ls = load_session_Some [OF l]
  from ls wf have sid0: "sid0 < sid_seq st0"
    by (auto simp: store_wf_def)
  from fin have st_eq: "status resp = status resp1" by auto
  have bound: "\<exists>d. userId d \<noteq> None
        \<and> rq1 = ?rq\<lparr>sessionID := sid_seq st0, req_session := Some d\<rparr>
        \<and> sessions st1 = (sessions st0)(sid0 := None) \<and> sid_seq st1 = Suc (sid_seq st0)"
  proof (cases "ep = PostRegister")
    case True
    with h have "register srv P e ?rq st0 = (resp1, rq1, st1)" by simp
    from register_cases [OF this] ok True st_eq show ?thesis
      by (elim disjE exE conjE) (simp_all add: json_def)
  next
    case False
    with ok have ep: "ep = PostLogin" "status resp1 = 200" using st_eq by auto
    with h have "login srv P e ?rq st0 = (resp1, rq1, st1)" by simp
    from login_cases [OF this] ep show ?thesis
      by (elim disjE exE conjE) (simp_all add: json_def)
  qed
  then obtain d where d: "userId d \<noteq> None"
    "rq1 = ?rq\<lparr>sessionID := sid_seq st0, req_session := Some d\<rparr>"
    "sessions st1 = (sessions st0)(sid0 := None)" "sid_seq st1 = Suc (sid_seq st0)"
    by blast
  from d(2) sid0 have rq1: "req_session rq1 = Some d" "sessionID rq1 = sid_seq st0"
    "sessionID rq1 \<noteq> sid0" by simp_all
  with fin have resp: "resp = resp1\<lparr>set_cookie := Some (sid_seq st0)\<rparr>"
    and st': "st' = (if store_fails srv e StoreSet then st1
                     else st1\<lparr>sessions := (sessions st1)(sid_seq st0 \<mapsto> d)\<rparr>)"
    by auto
  have old: "sessions st' c = None" if "cookie r = Some c" and "c < sid_seq st" for c
  proof -
    from that ls have "c \<noteq> sid_seq st0" by simp
    with st' have "sessions st' c = sessions st1 c" by simp
    also have "\<dots> = None"
      using d(3) ls that(1) by (auto split: if_splits)
    finally show ?thesis .
  qed
  from resp st' d ls old show ?thesis
    by (intro exI [where x = "sid_seq st0"] exI [where x = d]) auto
qed

lemma serve_store_wf:
  assumes run: "serve srv P e ep r st = (resp, st')" and wf: "store_wf st"
  shows "store_wf st' \<and> sid_seq st \<le> sid_seq st'"
proof -
  from serve_cases [OF run] show ?thesis
  proof (elim disjE exE conjE)
    assume "st' = st"
    with wf show ?thesis by simp
  next
    fix sid0 s0 st0 resp1 rq1 st1
    assume l: "load_session srv e st (cookie r) = Some (sid0, s0, st0)"
      and h: "handler srv P e ep
                \<lparr>req_body = json_in r, sessionID = sid0, req_session = Some s0\<rparr> st0
              = (resp1, rq1, st1)"
      and st': "st' = st1"
    note ls = load_session_Some [OF l] and eff = handler_session_effect [OF h]
    from eff ls have seq: "sid_seq st \<le> sid_seq st1" by auto
    have "s < sid_seq st1" if "sessions st1 s \<noteq> None" for s
    proof -
      from eff that ls have "sessions st s \<noteq> None" by (auto split: if_splits)
      with wf seq show ?thesis by (auto simp: store_wf_def)
    qed
    with seq st' show ?thesis by (simp add: store_wf_def)
  next
    fix sid0 s0 st0 resp1 rq1 st1
    assume l: "load_session srv e st (cookie r) = Some (sid0, s0, st0)"
      and h: "handler srv P e ep
                \<lparr>req_body = json_in r, sessionID = sid0, req_session = Some s0\<rparr> st0
              = (resp1, rq1, st1)"
      and st': "st' = st1"
    note ls = load_session_Some [OF l] and eff = handler_session_effect [OF h]
    from eff ls have seq: "sid_seq st \<le> sid_seq st1" by auto
    have "s < sid_seq st1" if "sessions st1 s \<noteq> None" for s
    proof -
      from eff that ls have "sessions st s \<noteq> None" by (auto split: if_splits)
      with wf seq show ?thesis by (auto simp: store_wf_def)
    qed
    with seq st' show ?thesis by (simp add: store_wf_def)
  next
    fix sid0 s0 st0 resp1 rq1 st1 s1
    assume l: "load_session srv e st (cookie r) = Some (sid0, s0, st0)"
      and h: "handler srv P e ep
                \<lparr>req_body = json_in r, sessionID = sid0, req_session = Some s0\<rparr> st0
              = (resp1, rq1, st1)"
      and s1: "req_session rq1 = Some s1" and ch: "\<not> (sessionID rq1 = sid0 \<and> s1 = s0)"
      and st': "st' = (if store_fails srv e StoreSet then st1
                       else st1\<lparr>sessions := (sessions st1)(sessionID rq1 \<mapsto> s1)\<rparr>)"
    note ls = load_session_Some [OF l] and eff = handler_session_effect [OF h]
    from eff s1 ch have fresh: "sessionID rq1 = sid_seq st0" "sid_seq st1 = Suc (sid_seq st0)"
      by auto
    with ls have seq: "sid_seq st \<le> sid_seq st1" "sessionID rq1 < sid_seq st1" by auto
    have old: "s < sid_seq st1" if "sessions st1 s \<noteq> None" for s
    proof -
      from eff that ls have "sessions st s \<noteq> None" by (auto split: if_splits)
      with wf seq show ?thesis by (auto simp: store_wf_def)
    qed
    have "s < sid_seq st'" if "sessions st' s \<noteq> None" for s
      using that st' old seq by (cases "s = sessionID rq1") (auto split: if_splits)
    moreover from st' have "sid_seq st' = sid_seq st1" by simp
    ultimately show ?thesis using seq by (simp add: store_wf_def)
  qed
qed

lemma initial_store_wf: "store_wf initial_state"
  by (simp add: store_wf_def initial_state_def)

text \<open>
  C1. Register and login bind the identity to a regenerated identifier only.
  \<^item> Whatever the request, an identifier issued before it keeps its session or loses
    it: no identity is ever attached to a pre-existing identifier.
  \<^item> A session that a request writes is under an identifier that had not been issued
    before, and it is empty unless the request is a register that answers 201 or a
    login that answers 200.
  \<^item> When a register answers 201 or a login answers 200, the response sets a cookie
    with an identifier that had not been issued before the request, so it differs from
    every identifier a client could hold (a client holds only identifiers the server
    issued: the cookie is signed); the session written under it carries the user id,
    and the identifier the client presented no longer has a session.
\<close>

theorem identity_only_on_fresh_identifier:
  assumes "serve srv P e ep r st = (resp, st')" and "store_wf st"
  shows "(\<forall>s. s < sid_seq st \<longrightarrow> sessions st' s = sessions st s \<or> sessions st' s = None)
       \<and> (\<forall>s d. sessions st' s = Some d \<and> sessions st s \<noteq> Some d \<longrightarrow>
              sid_seq st \<le> s
              \<and> (d = empty_session \<or> (ep = PostRegister \<and> status resp = 201)
                  \<or> (ep = PostLogin \<and> status resp = 200)))
       \<and> ((ep = PostRegister \<and> status resp = 201) \<or> (ep = PostLogin \<and> status resp = 200) \<longrightarrow>
            (\<exists>new d. set_cookie resp = Some new \<and> sid_seq st \<le> new \<and> new < sid_seq st'
               \<and> userId d \<noteq> None
               \<and> (store_fails srv e StoreSet \<or> sessions st' new = Some d)
               \<and> (\<forall>c. cookie r = Some c \<and> c < sid_seq st \<longrightarrow> sessions st' c = None)))"
proof (intro conjI allI impI)
  fix s
  assume "s < sid_seq st"
  with serve_issued_sessions [OF assms(1)]
  show "sessions st' s = sessions st s \<or> sessions st' s = None" .
next
  fix s d
  assume w: "sessions st' s = Some d \<and> sessions st s \<noteq> Some d"
  from serve_written_session [OF assms(1), of s d] w
  show "sid_seq st \<le> s" by simp
  from serve_written_session [OF assms(1), of s d] w
  show "d = empty_session \<or> (ep = PostRegister \<and> status resp = 201)
      \<or> (ep = PostLogin \<and> status resp = 200)" by simp
next
  assume "(ep = PostRegister \<and> status resp = 201) \<or> (ep = PostLogin \<and> status resp = 200)"
  from serve_binds_fresh [OF assms this]
  show "\<exists>new d. set_cookie resp = Some new \<and> sid_seq st \<le> new \<and> new < sid_seq st'
         \<and> userId d \<noteq> None
         \<and> (store_fails srv e StoreSet \<or> sessions st' new = Some d)
         \<and> (\<forall>c. cookie r = Some c \<and> c < sid_seq st \<longrightarrow> sessions st' c = None)" .
qed

theorem identity_only_on_fresh_identifier_witness:
  "serve ServerJs example_platform example_env PostLogin
     \<lparr>cookie = Some 1, json_in = alice_credentials\<rparr> alice_state
   = ((json 200 (UsernameJson (JStr ''alice'')))\<lparr>set_cookie := Some 2\<rparr>,
      alice_state\<lparr>sessions := (\<lambda>s. None)(2 \<mapsto> alice_session), sid_seq := 3\<rparr>)
   \<and> sessions (alice_state\<lparr>sessions := (\<lambda>s. None)(2 \<mapsto> alice_session), sid_seq := 3\<rparr>) 1
       = None"
proof -
  have run: "serve ServerJs example_platform example_env PostLogin
     \<lparr>cookie = Some 1, json_in = alice_credentials\<rparr> alice_state
   = ((json 200 (UsernameJson (JStr ''alice'')))\<lparr>set_cookie := Some 2\<rparr>,
      alice_state\<lparr>sessions := (\<lambda>s. None)(2 \<mapsto> alice_session), sid_seq := 3\<rparr>)"
    by (simp add: serve_def load_session_def alice_state_def alice_credentials_def
        login_def js_or_def findUserByName_def sql_text_def example_env_def
        bcrypt_compare_call_def example_platform_def regenerate_def store_fails_def
        alice_session_def empty_session_def json_def Let_def fun_eq_iff)
  have wf: "store_wf alice_state"
    by (simp add: store_wf_def alice_state_def)
  from identity_only_on_fresh_identifier [OF run wf] run show ?thesis
    by (simp add: alice_state_def)
qed

subsection \<open>A register that fails\<close>

text \<open>
  C10, as amended. When register answers 400, 409 or 500 \<open>internal\<close>, the request's
  session is exactly as it was: same identifier, same content, and the session store
  and the identifiers issued are untouched. When it answers 500 \<open>session_error\<close>, the
  store failed to destroy the old entry during \<^verbatim>\<open>regenerate\<close>, which had by then
  replaced the request's session by an empty one under a new identifier: the session
  is not as it was, but no identity is bound on this path either.
\<close>

theorem register_failure_session:
  assumes "register srv P e rq st = (resp, rq', st')" and "status resp \<noteq> 201"
  shows "(content resp \<noteq> ErrorJson ''session_error'' \<longrightarrow>
            rq' = rq \<and> sessions st' = sessions st \<and> sid_seq st' = sid_seq st)
       \<and> (content resp = ErrorJson ''session_error'' \<longrightarrow>
            store_fails srv e StoreDestroy \<and> sessionID rq' = sid_seq st
            \<and> req_session rq' = Some empty_session \<and> sessions st' = sessions st)"
  using register_cases [OF assms(1)] assms(2)
  by (elim disjE exE conjE) (simp_all add: json_def)

theorem register_failure_session_witness:
  "status (fst (register ServerJs example_platform example_env
     \<lparr>req_body = alice_credentials, sessionID = 1, req_session = Some alice_session\<rparr>
     alice_state)) = 409
   \<and> fst (snd (register ServerJs example_platform example_env
     \<lparr>req_body = alice_credentials, sessionID = 1, req_session = Some alice_session\<rparr>
     alice_state))
     = \<lparr>req_body = alice_credentials, sessionID = 1, req_session = Some alice_session\<rparr>
   \<and> sessions (snd (snd (register ServerJs example_platform example_env
     \<lparr>req_body = alice_credentials, sessionID = 1, req_session = Some alice_session\<rparr>
     alice_state))) = sessions alice_state"
proof -
  have run: "register ServerJs example_platform example_env
     \<lparr>req_body = alice_credentials, sessionID = 1, req_session = Some alice_session\<rparr>
     alice_state
   = (json 409 (ErrorJson ''username_taken''),
      \<lparr>req_body = alice_credentials, sessionID = 1, req_session = Some alice_session\<rparr>,
      alice_state)"
    by (simp add: register_def alice_credentials_def js_or_def findUserByName_def
        sql_text_def example_env_def alice_state_def Let_def)
  have "status (json 409 (ErrorJson ''username_taken'')) \<noteq> 201"
    by (simp add: json_def)
  from register_failure_session [OF run this] run show ?thesis
    by (simp add: json_def)
qed

text \<open>
  The claim as stated fails where the session store cannot destroy the old entry:
  \<open>alice\<close>, logged in under identifier 1, registers \<open>bob\<close>. The answer is 500, and the
  request's session is no longer hers: it is an empty session under identifier 2, which
  the response sends as the new cookie.
\<close>

theorem register_failure_session_counterexample:
  "register ServerJs example_platform destroy_fails_env
     \<lparr>req_body = bob_credentials, sessionID = 1, req_session = Some alice_session\<rparr>
     alice_state
   = (json 500 (ErrorJson ''session_error''),
      \<lparr>req_body = bob_credentials, sessionID = 2, req_session = Some empty_session\<rparr>,
      alice_state\<lparr>users := users alice_state @
                      [\<lparr>u_id = 2, u_username = ''bob'', u_password_hash = ''hunter2$..''\<rparr>],
                  users_seq := 2, sid_seq := 3\<rparr>)
   \<and> \<lparr>req_body = bob_credentials, sessionID = 2, req_session = Some empty_session\<rparr>
     \<noteq> \<lparr>req_body = bob_credentials, sessionID = 1, req_session = Some alice_session\<rparr>
   \<and> fst (serve ServerJs example_platform destroy_fails_env PostRegister
            \<lparr>cookie = Some 1, json_in = bob_credentials\<rparr> alice_state)
     = (json 500 (ErrorJson ''session_error''))\<lparr>set_cookie := Some 2\<rparr>"
  by (simp add: serve_def load_session_def register_def bob_credentials_def js_or_def
      findUserByName_def sql_text_def destroy_fails_env_def alice_state_def Let_def
      bcrypt_hash_call_def example_platform_def insertUser_def regenerate_def
      store_fails_def alice_session_def empty_session_def json_def numeral_2_eq_2)

subsection \<open>What a request does to the table of users\<close>

text \<open>No endpoint deletes or changes a user; a register appends one whose name is new.\<close>

lemma handler_users_effect:
  assumes "handler srv P e ep rq st = (resp, rq', st')"
  shows "users st' = users st
       \<or> (\<exists>row. users st' = users st @ [row]
             \<and> u_username row \<notin> set (map u_username (users st)))"
proof (cases ep)
  case GetMe
  with assms show ?thesis by (auto simp: me_def split: if_splits)
next
  case PostRegister
  with assms have "register srv P e rq st = (resp, rq', st')" by simp
  from register_cases [OF this] show ?thesis
  proof (elim disjE exE conjE)
    assume "users st' = users st"
    then show ?thesis by simp
  next
    fix t h
    assume "store_fails srv e StoreDestroy"
      and "find (\<lambda>r. u_username r = t) (users st) = None"
      and "users st' = users st @
             [\<lparr>u_id = Suc (users_seq st), u_username = t, u_password_hash = h\<rparr>]"
    then show ?thesis by (auto simp: find_None_iff)
  next
    fix t h
    assume "\<not> store_fails srv e StoreDestroy"
      and "find (\<lambda>r. u_username r = t) (users st) = None"
      and "users st' = users st @
             [\<lparr>u_id = Suc (users_seq st), u_username = t, u_password_hash = h\<rparr>]"
    then show ?thesis by (auto simp: find_None_iff)
  qed
next
  case PostLogin
  with assms have "login srv P e rq st = (resp, rq', st')" by simp
  from login_cases [OF this] show ?thesis by (elim disjE exE conjE) simp_all
next
  case PostLogout
  with assms show ?thesis
    by (auto simp: logout_def destroy_def Let_def split: if_splits)
next
  case PostImport
  with assms have "requireAuth (import_games srv P e) rq st = (resp, rq', st')" by simp
  from requireAuth_cases [OF this] import_games_cases show ?thesis by blast
next
  case GetGames
  with assms have "requireAuth (list_games P e) rq st = (resp, rq', st')" by simp
  from requireAuth_cases [OF this] list_games_cases show ?thesis by blast
qed

lemma serve_users_effect:
  assumes "serve srv P e ep r st = (resp, st')"
  shows "users st' = users st
       \<or> (\<exists>row. users st' = users st @ [row]
             \<and> u_username row \<notin> set (map u_username (users st)))"
proof -
  from serve_cases [OF assms] show ?thesis
  proof (elim disjE exE conjE)
    assume "st' = st"
    then show ?thesis by simp
  next
    fix sid0 s0 st0 resp1 rq1 st1
    assume l: "load_session srv e st (cookie r) = Some (sid0, s0, st0)"
      and h: "handler srv P e ep
                \<lparr>req_body = json_in r, sessionID = sid0, req_session = Some s0\<rparr> st0
              = (resp1, rq1, st1)"
      and "st' = st1"
    with load_session_Some [OF l] handler_users_effect [OF h] show ?thesis by simp
  next
    fix sid0 s0 st0 resp1 rq1 st1
    assume l: "load_session srv e st (cookie r) = Some (sid0, s0, st0)"
      and h: "handler srv P e ep
                \<lparr>req_body = json_in r, sessionID = sid0, req_session = Some s0\<rparr> st0
              = (resp1, rq1, st1)"
      and "st' = st1"
    with load_session_Some [OF l] handler_users_effect [OF h] show ?thesis by simp
  next
    fix sid0 s0 st0 resp1 rq1 st1 s1
    assume l: "load_session srv e st (cookie r) = Some (sid0, s0, st0)"
      and h: "handler srv P e ep
                \<lparr>req_body = json_in r, sessionID = sid0, req_session = Some s0\<rparr> st0
              = (resp1, rq1, st1)"
      and "st' = (if store_fails srv e StoreSet then st1
                  else st1\<lparr>sessions := (sessions st1)(sessionID rq1 \<mapsto> s1)\<rparr>)"
    then have "users st' = users st1" by simp
    with load_session_Some [OF l] handler_users_effect [OF h] show ?thesis by simp
  qed
qed

lemma serve_sid_seq_mono:
  assumes "serve srv P e ep r st = (resp, st')"
  shows "sid_seq st \<le> sid_seq st'"
proof -
  from serve_cases [OF assms] show ?thesis
  proof (elim disjE exE conjE)
    assume "st' = st"
    then show ?thesis by simp
  next
    fix sid0 s0 st0 resp1 rq1 st1
    assume l: "load_session srv e st (cookie r) = Some (sid0, s0, st0)"
      and h: "handler srv P e ep
                \<lparr>req_body = json_in r, sessionID = sid0, req_session = Some s0\<rparr> st0
              = (resp1, rq1, st1)"
      and "st' = st1"
    with load_session_Some [OF l] handler_session_effect [OF h] show ?thesis by auto
  next
    fix sid0 s0 st0 resp1 rq1 st1
    assume l: "load_session srv e st (cookie r) = Some (sid0, s0, st0)"
      and h: "handler srv P e ep
                \<lparr>req_body = json_in r, sessionID = sid0, req_session = Some s0\<rparr> st0
              = (resp1, rq1, st1)"
      and "st' = st1"
    with load_session_Some [OF l] handler_session_effect [OF h] show ?thesis by auto
  next
    fix sid0 s0 st0 resp1 rq1 st1 s1
    assume l: "load_session srv e st (cookie r) = Some (sid0, s0, st0)"
      and h: "handler srv P e ep
                \<lparr>req_body = json_in r, sessionID = sid0, req_session = Some s0\<rparr> st0
              = (resp1, rq1, st1)"
      and "st' = (if store_fails srv e StoreSet then st1
                  else st1\<lparr>sessions := (sessions st1)(sessionID rq1 \<mapsto> s1)\<rparr>)"
    then have "sid_seq st' = sid_seq st1" by simp
    with load_session_Some [OF l] handler_session_effect [OF h] show ?thesis by auto
  qed
qed

text \<open>Over any sequence of requests: a user stays, a name stays taken once, and an
  identifier that was issued and has no session gets none.\<close>

lemma find_append_Some: "find Q xs = Some x \<Longrightarrow> find Q (xs @ ys) = Some x"
  by (induction xs) (auto split: if_splits)

lemma find_append_None: "find Q xs = None \<Longrightarrow> find Q (xs @ ys) = find Q ys"
  by (induction xs) (auto split: if_splits)

lemma serve_all_find:
  "find (\<lambda>r. u_username r = u) (users st) = Some row \<Longrightarrow>
   find (\<lambda>r. u_username r = u) (users (serve_all srv P reqs st)) = Some row"
proof (induction reqs arbitrary: st)
  case Nil
  then show ?case by simp
next
  case (Cons q reqs)
  obtain e ep r where q: "q = (e, ep, r)" by (cases q) auto
  obtain resp st' where s: "serve srv P e ep r st = (resp, st')"
    by (cases "serve srv P e ep r st") auto
  from serve_users_effect [OF s] Cons.prems
  have "find (\<lambda>r. u_username r = u) (users st') = Some row"
    by (auto simp: find_append_Some)
  from Cons.IH [OF this] q s show ?case by simp
qed


lemma serve_all_no_session:
  "sessions st c = None \<Longrightarrow> c < sid_seq st \<Longrightarrow>
   sessions (serve_all srv P reqs st) c = None"
proof (induction reqs arbitrary: st)
  case Nil
  then show ?case by simp
next
  case (Cons q reqs)
  obtain e ep r where q: "q = (e, ep, r)" by (cases q) auto
  obtain resp st' where s: "serve srv P e ep r st = (resp, st')"
    by (cases "serve srv P e ep r st") auto
  from serve_issued_sessions [OF s Cons.prems(2)] Cons.prems(1)
  have "sessions st' c = None" by auto
  moreover from serve_sid_seq_mono [OF s] Cons.prems(2) have "c < sid_seq st'" by simp
  ultimately have "sessions (serve_all srv P reqs st') c = None" by (rule Cons.IH)
  with q s show ?case by simp
qed

subsection \<open>Register, then register or log in\<close>

lemma serve_handler:
  assumes "serve srv P e ep r st = (resp, st')"
    and "load_session srv e st (cookie r) = Some (sid0, s0, st0)"
    and "handler srv P e ep \<lparr>req_body = json_in r, sessionID = sid0, req_session = Some s0\<rparr> st0
           = (resp1, rq1, st1)"
  shows "status resp = status resp1 \<and> content resp = content resp1
       \<and> users st' = users st1 \<and> games st' = games st1"
  using serve_cases [OF assms(1)] assms(2,3)
  by (elim disjE exE conjE) (simp_all split: if_splits)

lemma body_is_object:
  "js_get b k = JStr s \<Longrightarrow> js_or b (JObj []) = b"
  by (cases b) (simp_all add: js_or_def)



text \<open>A username the database refuses: the lookup throws, and the handler answers 500.\<close>

lemma register_refused:
  assumes "js_get (req_body rq) ''username'' = JStr u" and "u \<noteq> []"
    and "js_get (req_body rq) ''password'' = JStr p" and "p \<noteq> []"
    and "sql_text P (driver_of srv) (JStr u) = None"
  shows "register srv P e rq st = (json 500 (ErrorJson ''internal''), rq, st)"
proof -
  note b = body_is_object [OF assms(1)]
  from assms(1-4) have "\<not> register_rejects srv (JStr u) (JStr p)"
    by (cases srv) simp_all
  with assms show ?thesis
    by (simp add: register_def Let_def b findUserByName_def)
qed

lemma login_succeeds:
  assumes "js_get (req_body rq) ''username'' = JStr u" and "u \<noteq> []"
    and "js_get (req_body rq) ''password'' = JStr p" and "p \<noteq> []"
    and "\<not> db_fault e SelectUser" and "\<not> store_fails srv e StoreDestroy"
    and "sql_text P (driver_of srv) (JStr u) = Some t"
    and "find (\<lambda>r. u_username r = t) (users st) = Some row"
    and "bcrypt_compare P p (u_password_hash row)"
  shows "\<exists>rq' st'. login srv P e rq st
           = (json 200 (UsernameJson (JStr (u_username row))), rq', st')"
proof -
  note b = body_is_object [OF assms(1)]
  from assms show ?thesis
    by (simp add: login_def Let_def b findUserByName_def
        bcrypt_compare_call_def regenerate_eq)
qed

text \<open>
  What a register that answered 201 has stored: the database took the name, and the one
  row of that name holds it as the database has it.
\<close>

lemma serve_register_201:
  assumes run: "serve srv P e PostRegister r st = (resp, st')" and ok: "status resp = 201"
    and u: "js_get (json_in r) ''username'' = JStr u"
    and p: "js_get (json_in r) ''password'' = JStr p"
  shows "sql_text P (driver_of srv) (JStr u) = Some (utf8_of u)
       \<and> content resp = UsernameJson (JStr u)
       \<and> find (\<lambda>r. u_username r = utf8_of u) (users st')
           = Some \<lparr>u_id = Suc (users_seq st), u_username = utf8_of u,
                   u_password_hash = bcrypt_hash P p (salt e)\<rparr>
       \<and> length (filter (\<lambda>r. u_username r = utf8_of u) (users st')) = 1"
proof -
  note b = body_is_object [OF u]
  from ok have nz: "status resp \<noteq> 500" by simp
  from serve_cases [OF run] nz
  obtain sid0 s0 st0 resp1 rq1 st1 where
    l: "load_session srv e st (cookie r) = Some (sid0, s0, st0)"
    and h: "handler srv P e PostRegister
              \<lparr>req_body = json_in r, sessionID = sid0, req_session = Some s0\<rparr> st0
            = (resp1, rq1, st1)"
    by (auto simp: json_def)
  note sh = serve_handler [OF run l h] and ls = load_session_Some [OF l]
  let ?rq = "\<lparr>req_body = json_in r, sessionID = sid0, req_session = Some s0\<rparr>"
  from h have "register srv P e ?rq st0 = (resp1, rq1, st1)" by simp
  from register_cases [OF this] sh ok
  obtain t h' where k: "resp1 = json 201 (UsernameJson (JStr u))"
    "sql_text P (driver_of srv) (JStr u) = Some t"
    "bcrypt_hash_call P e (JStr p) = Inr h'"
    "find (\<lambda>r. u_username r = t) (users st0) = None"
    "users st1 = users st0 @
       [\<lparr>u_id = Suc (users_seq st0), u_username = t, u_password_hash = h'\<rparr>]"
    by (elim disjE exE conjE) (simp_all add: json_def b u p)
  from sql_text_JStr [OF k(2)] k(3) have th: "t = utf8_of u" "h' = bcrypt_hash P p (salt e)"
    by (simp_all add: bcrypt_hash_call_def)
  from k(4) th have none: "filter (\<lambda>r. u_username r = utf8_of u) (users st0) = []"
    by (auto simp: find_None_iff filter_empty_conv)
  from k th sh ls none show ?thesis
    by (simp add: json_def find_append_None)
qed




text \<open>
  C5, as the code has it. A register that answered 201 for a non-empty string username
  and password, then any requests, then a login with the same credentials: when the
  stores answer and bcrypt accepts the password against the hash it made of it, the
  login answers 200. The register's body holds the username of the request, the login's
  the username of the row, which is its UTF-8: the two bodies are the same when the
  username is its own UTF-8, as every username without the byte \<open>ED\<close> is.
\<close>

theorem login_after_register:
  assumes "js_get (json_in r1) ''username'' = JStr u" and "u \<noteq> []"
    and "js_get (json_in r1) ''password'' = JStr p" and "p \<noteq> []"
    and "js_get (json_in r2) ''username'' = JStr u"
    and "js_get (json_in r2) ''password'' = JStr p"
    and "serve srv P e1 PostRegister r1 st = (resp1, st1)" and "status resp1 = 201"
    and "bcrypt_compare P p (bcrypt_hash P p (salt e1))"
    and "\<not> store_fails srv e2 StoreGet" and "\<not> store_fails srv e2 StoreDestroy"
    and "\<not> db_fault e2 SelectUser"
    and "serve srv P e2 PostLogin r2 (serve_all srv P between st1) = (resp2, st2)"
  shows "status resp2 = 200
       \<and> content resp1 = UsernameJson (JStr u)
       \<and> content resp2 = UsernameJson (JStr (utf8_of u))
       \<and> (utf8_of u = u \<longrightarrow> content resp2 = content resp1)
       \<and> (CHR 0xED \<notin> set u \<longrightarrow> content resp2 = content resp1)"
proof -
  let ?row = "\<lparr>u_id = Suc (users_seq st), u_username = utf8_of u,
                u_password_hash = bcrypt_hash P p (salt e1)\<rparr>"
  from serve_register_201 [OF assms(7,8,1,3)]
  have first: "content resp1 = UsernameJson (JStr u)"
    and t: "sql_text P (driver_of srv) (JStr u) = Some (utf8_of u)"
    and row: "find (\<lambda>r. u_username r = utf8_of u) (users st1) = Some ?row"
    by simp_all
  let ?st = "serve_all srv P between st1"
  note row' = serve_all_find [OF row, of srv P between]
  from load_session_cases [OF assms(10), of ?st "cookie r2"]
  obtain sid2 s2 st02 where l2: "load_session srv e2 ?st (cookie r2) = Some (sid2, s2, st02)"
    by blast
  let ?rq2 = "\<lparr>req_body = json_in r2, sessionID = sid2, req_session = Some s2\<rparr>"
  note ls2 = load_session_Some [OF l2]
  from ls2 row' have "find (\<lambda>r. u_username r = utf8_of u) (users st02) = Some ?row" by simp
  with assms(2,4,5,6,9,11,12) t
  have "\<exists>rq' st'. login srv P e2 ?rq2 st02
      = (json 200 (UsernameJson (JStr (u_username ?row))), rq', st')"
    by (intro login_succeeds [where u = u and p = p and t = "utf8_of u"]) simp_all
  then obtain rq' st' where
    h2: "handler srv P e2 PostLogin ?rq2 st02
           = (json 200 (UsernameJson (JStr (utf8_of u))), rq', st')"
    by auto
  from serve_handler [OF assms(13) l2 h2] first show ?thesis
    by (simp add: json_def utf8_of_plain)
qed

theorem login_after_register_witness:
  "serve ServerJs example_platform example_env PostRegister
     \<lparr>cookie = None, json_in = bob_credentials\<rparr> alice_state
   = ((json 201 (UsernameJson (JStr ''bob'')))\<lparr>set_cookie := Some 3\<rparr>, bob_state)
   \<and> serve ServerJs example_platform example_env PostLogin
     \<lparr>cookie = Some 3, json_in = bob_credentials\<rparr> bob_state
   = ((json 200 (UsernameJson (JStr ''bob'')))\<lparr>set_cookie := Some 4\<rparr>,
      bob_state\<lparr>sessions := (sessions bob_state)(3 := None, 4 \<mapsto> bob_session),
                sid_seq := 5\<rparr>)"
proof -
  have one: "serve ServerJs example_platform example_env PostRegister
     \<lparr>cookie = None, json_in = bob_credentials\<rparr> alice_state
   = ((json 201 (UsernameJson (JStr ''bob'')))\<lparr>set_cookie := Some 3\<rparr>, bob_state)"
    by (simp add: serve_def load_session_def alice_state_def bob_credentials_def
        register_def js_or_def findUserByName_def sql_text_def example_env_def
        bcrypt_hash_call_def example_platform_def insertUser_def regenerate_def
        store_fails_def bob_state_def bob_session_def alice_session_def empty_session_def json_def
        numeral_2_eq_2 numeral_3_eq_3 Let_def fun_eq_iff)
  have two: "serve ServerJs example_platform example_env PostLogin
     \<lparr>cookie = Some 3, json_in = bob_credentials\<rparr>
     (serve_all ServerJs example_platform [] bob_state)
   = ((json 200 (UsernameJson (JStr ''bob'')))\<lparr>set_cookie := Some 4\<rparr>,
      bob_state\<lparr>sessions := (sessions bob_state)(3 := None, 4 \<mapsto> bob_session),
                sid_seq := 5\<rparr>)"
    by (simp add: serve_def load_session_def bob_state_def bob_credentials_def
        login_def js_or_def findUserByName_def sql_text_def example_env_def
        bcrypt_compare_call_def example_platform_def regenerate_def store_fails_def
        bob_session_def alice_session_def empty_session_def json_def Let_def fun_eq_iff)
  from login_after_register [OF _ _ _ _ _ _ one _ _ _ _ _ two,
      where u = "''bob''" and p = "''hunter2''"] one two
  show ?thesis
    by (simp add: bob_credentials_def store_fails_def example_env_def json_def
        example_platform_def)
qed

text \<open>
  C5 as the spec has it, the same username in both bodies, fails for the username that
  is one lone surrogate, \<^verbatim>\<open>"\ud800"\<close>: the register answers 201 with the username of
  the request, and the login with the same credentials answers 200 with the username of
  the row, U+FFFD.
\<close>

theorem login_after_register_counterexample:
  "status (fst (serve ServerJs example_platform example_env PostRegister
          \<lparr>cookie = None, json_in = surrogate_credentials\<rparr> alice_state)) = 201
   \<and> content (fst (serve ServerJs example_platform example_env PostRegister
          \<lparr>cookie = None, json_in = surrogate_credentials\<rparr> alice_state))
     = UsernameJson (JStr lone_surrogate)
   \<and> status (fst (serve ServerJs example_platform example_env PostLogin
          \<lparr>cookie = None, json_in = surrogate_credentials\<rparr>
          (snd (serve ServerJs example_platform example_env PostRegister
                  \<lparr>cookie = None, json_in = surrogate_credentials\<rparr> alice_state)))) = 200
   \<and> content (fst (serve ServerJs example_platform example_env PostLogin
          \<lparr>cookie = None, json_in = surrogate_credentials\<rparr>
          (snd (serve ServerJs example_platform example_env PostRegister
                  \<lparr>cookie = None, json_in = surrogate_credentials\<rparr> alice_state))))
     = UsernameJson (JStr replacement_character)
   \<and> lone_surrogate \<noteq> replacement_character"
  by (simp add: serve_def load_session_def alice_state_def
      surrogate_credentials_def lone_surrogate_def replacement_character_def
      register_def login_def js_or_def findUserByName_def sql_text_def example_env_def
      bcrypt_hash_call_def bcrypt_compare_call_def example_platform_def insertUser_def
      regenerate_def store_fails_def alice_session_def empty_session_def json_def Let_def)

subsection \<open>Logout\<close>

lemma serve_me_without_session:
  assumes "cookie r = Some c" and "sessions st c = None" and "\<not> store_fails srv e StoreGet"
  shows "fst (serve srv P e GetMe r st) = json 401 (ErrorJson ''not_authenticated'')"
  using assms
  by (simp add: serve_def load_session_def me_def authenticated_def empty_session_def)

lemma serve_logout_ok:
  assumes run: "serve srv P e PostLogout r st = (resp, st')" and ok: "content resp = OkJson"
    and ck: "cookie r = Some c"
  shows "sessions st' c = None"
proof -
  from ok have "content resp \<noteq> ErrorPage" by simp
  with serve_cases [OF run]
  obtain sid0 s0 st0 resp1 rq1 st1 where
    l: "load_session srv e st (cookie r) = Some (sid0, s0, st0)"
    and h: "handler srv P e PostLogout
              \<lparr>req_body = json_in r, sessionID = sid0, req_session = Some s0\<rparr> st0
            = (resp1, rq1, st1)"
    by (auto simp: json_def)
  let ?rq = "\<lparr>req_body = json_in r, sessionID = sid0, req_session = Some s0\<rparr>"
  note ls = load_session_Some [OF l]
  show ?thesis
  proof (cases "store_fails srv e StoreDestroy")
    case True
    with h have "resp1 = json 500 (ErrorJson ''logout_failed'')" "req_session rq1 = None"
      by (auto simp: logout_def destroy_def Let_def)
    with run l h have "resp = json 500 (ErrorJson ''logout_failed'')"
      by (simp add: serve_def)
    with ok show ?thesis by (simp add: json_def)
  next
    case False
    with h have "st1 = st0\<lparr>sessions := (sessions st0)(sid0 := None)\<rparr>" "req_session rq1 = None"
      by (auto simp: logout_def destroy_def Let_def)
    with run l h have "st' = st0\<lparr>sessions := (sessions st0)(sid0 := None)\<rparr>"
      by (simp add: serve_def)
    with ls ck show ?thesis by auto
  qed
qed

text \<open>
  C8. After a logout that answered \<^verbatim>\<open>{ok: true}\<close> to a request presenting a cookie the
  server had issued, every later \<^verbatim>\<open>GET /api/me\<close> presenting the same cookie answers 401
  \<open>not_authenticated\<close>, whether it is the next request or comes after any others, as
  long as the session store answers its lookup.
\<close>

theorem logout_invalidates_cookie:
  assumes "cookie r = Some c" and "c < sid_seq st"
    and "serve srv P e1 PostLogout r st = (resp1, st1)" and "content resp1 = OkJson"
    and "cookie r' = Some c" and "\<not> store_fails srv e2 StoreGet"
  shows "fst (serve srv P e2 GetMe r' (serve_all srv P between st1))
           = json 401 (ErrorJson ''not_authenticated'')"
proof -
  from serve_logout_ok [OF assms(3,4,1)] have "sessions st1 c = None" .
  moreover from serve_sid_seq_mono [OF assms(3)] assms(2) have "c < sid_seq st1" by simp
  ultimately have "sessions (serve_all srv P between st1) c = None"
    by (rule serve_all_no_session)
  with assms(5,6) show ?thesis by (intro serve_me_without_session)
qed

theorem logout_invalidates_cookie_witness:
  "fst (serve ServerJs example_platform example_env GetMe
          \<lparr>cookie = Some 1, json_in = JUndefined\<rparr> alice_state)
     = json 200 (UsernameJson (JStr ''alice''))
   \<and> serve ServerJs example_platform example_env PostLogout
          \<lparr>cookie = Some 1, json_in = JUndefined\<rparr> alice_state
     = ((json 200 OkJson)\<lparr>clear_cookie := True\<rparr>, alice_state\<lparr>sessions := (\<lambda>s. None)\<rparr>)
   \<and> fst (serve ServerJs example_platform example_env GetMe
          \<lparr>cookie = Some 1, json_in = JUndefined\<rparr> (alice_state\<lparr>sessions := (\<lambda>s. None)\<rparr>))
     = json 401 (ErrorJson ''not_authenticated'')"
proof -
  have before: "fst (serve ServerJs example_platform example_env GetMe
          \<lparr>cookie = Some 1, json_in = JUndefined\<rparr> alice_state)
     = json 200 (UsernameJson (JStr ''alice''))"
    by (simp add: serve_def load_session_def alice_state_def store_fails_def example_env_def
        me_def authenticated_def alice_session_def)
  have out: "serve ServerJs example_platform example_env PostLogout
          \<lparr>cookie = Some 1, json_in = JUndefined\<rparr> alice_state
     = ((json 200 OkJson)\<lparr>clear_cookie := True\<rparr>, alice_state\<lparr>sessions := (\<lambda>s. None)\<rparr>)"
    by (simp add: serve_def load_session_def alice_state_def store_fails_def example_env_def
        logout_def destroy_def Let_def fun_eq_iff)
  from logout_invalidates_cookie [OF _ _ out, where c = 1 and ?e2.0 = example_env
      and r' = "\<lparr>cookie = Some 1, json_in = JUndefined\<rparr>" and between = "[]"] before out
  show ?thesis
    by (simp add: alice_state_def store_fails_def example_env_def json_def)
qed

subsection \<open>The input check of register\<close>

text \<open>
  server.js: a username or a password that is missing, empty or not a string is answered
  400, and nothing else happens.
\<close>

lemma register_invalid_input:
  assumes "\<not> (\<exists>u p. js_get (js_or (req_body rq) (JObj [])) ''username'' = JStr u \<and> u \<noteq> []
                \<and> js_get (js_or (req_body rq) (JObj [])) ''password'' = JStr p \<and> p \<noteq> [])"
  shows "register ServerJs P e rq st
           = (json 400 (ErrorJson ''username_and_password_required''), rq, st)"
proof -
  let ?u = "js_get (js_or (req_body rq) (JObj [])) ''username''"
  let ?p = "js_get (js_or (req_body rq) (JObj [])) ''password''"
  from assms have "register_rejects ServerJs ?u ?p"
    by (cases ?u; cases ?p) auto
  then show ?thesis by (simp add: register_def Let_def)
qed

text \<open>
  The dual-mode server checks truthiness only. A password that is truthy and not a
  string passes the check and reaches the lookup; when the name is free it reaches
  bcrypt, which rejects it: the answer is never 400.
\<close>

lemma register_dual_password_not_string:
  assumes "js_get (req_body rq) ''username'' = JStr u" and "u \<noteq> []"
    and "js_get (req_body rq) ''password'' = v" and "truthy v" and "\<not> is_string v"
  shows "status (fst (register (DualMode d) P e rq st)) = 500
       \<or> status (fst (register (DualMode d) P e rq st)) = 409"
proof -
  note b = body_is_object [OF assms(1)]
  from assms(4,5) have h: "bcrypt_hash_call P e v = Inl BcryptError"
    by (cases v) (simp_all add: bcrypt_hash_call_def)
  from assms(1-4) have nr: "\<not> register_rejects (DualMode d) (JStr u) v" by simp
  show ?thesis
  proof (cases "findUserByName P e d (JStr u) st")
    case (Inl x)
    with assms nr show ?thesis by (simp add: register_def Let_def b json_def)
  next
    case (Inr found)
    with assms nr h show ?thesis
      by (cases found) (simp_all add: register_def Let_def b json_def)
  qed
qed

text \<open>
  A username that is truthy and not a string passes as well. When the driver binds it
  (node-postgres sends a number as its decimal text), the register goes through: a user
  is created under that text and the session is bound to the value.
\<close>

lemma register_dual_username_not_string:
  assumes "js_get (req_body rq) ''username'' = v" and "truthy v" and "\<not> is_string v"
    and "js_get (req_body rq) ''password'' = JStr p" and "p \<noteq> []"
    and "bind_text P d v = Some t" and "t \<notin> set (map u_username (users st))"
    and "\<not> db_fault e SelectUser" and "\<not> db_fault e InsertUser"
    and "\<not> store_fails (DualMode d) e StoreDestroy"
  shows "\<exists>st'. register (DualMode d) P e rq st
           = (json 201 (UsernameJson v),
              rq\<lparr>sessionID := sid_seq st,
                 req_session := Some \<lparr>userId = Some (Suc (users_seq st)), username = v\<rparr>\<rparr>,
              st')
         \<and> users st' = users st @
              [\<lparr>u_id = Suc (users_seq st), u_username = t,
                u_password_hash = bcrypt_hash P p (salt e)\<rparr>]"
proof -
  note b = body_is_object [OF assms(4)]
  from assms(3,6) have t: "sql_text P d v = Some t"
    by (cases v) (simp_all add: sql_text_def)
  from assms(7) have f: "find (\<lambda>r. u_username r = t) (users st) = None"
    by (auto simp: find_None_iff)
  from assms t f show ?thesis
    by (simp add: register_def Let_def b findUserByName_def bcrypt_hash_call_def
        insertUser_def regenerate_eq)
qed

text \<open>
  C7 fails on the dual-mode server, with either driver. The request
  \<^verbatim>\<open>{username: "bob", password: 12345}\<close> has a password that is not a string; the claim
  has it answered 400. The dual-mode server looks \<open>bob\<close> up, hands the number to bcrypt
  and answers 500 \<open>internal\<close>. server.js answers the same request 400.
\<close>

theorem register_dual_accepts_number_password:
  "serve (DualMode d) P example_env PostRegister
     \<lparr>cookie = None,
      json_in = JObj [(''username'', JStr ''bob''), (''password'', JNum 12345)]\<rparr> alice_state
   = (json 500 (ErrorJson ''internal''), alice_state\<lparr>sid_seq := 3\<rparr>)
   \<and> serve ServerJs P example_env PostRegister
     \<lparr>cookie = None,
      json_in = JObj [(''username'', JStr ''bob''), (''password'', JNum 12345)]\<rparr> alice_state
   = (json 400 (ErrorJson ''username_and_password_required''), alice_state\<lparr>sid_seq := 3\<rparr>)"
  by (simp add: serve_def load_session_def alice_state_def register_def js_or_def
      findUserByName_def sql_text_def example_env_def bcrypt_hash_call_def
      store_fails_def empty_session_def json_def Let_def)

theorem register_dual_accepts_number_password_witness:
  "status (fst (serve (DualMode Pg) example_platform example_env PostRegister
     \<lparr>cookie = None,
      json_in = JObj [(''username'', JStr ''bob''), (''password'', JNum 12345)]\<rparr> alice_state))
   = 500
   \<and> users (snd (serve (DualMode Pg) example_platform example_env PostRegister
     \<lparr>cookie = None,
      json_in = JObj [(''username'', JStr ''bob''), (''password'', JNum 12345)]\<rparr> alice_state))
   = users alice_state"
  using register_dual_accepts_number_password [of Pg example_platform]
  by (simp add: json_def)

subsection \<open>Position data that is not JSON\<close>

lemma normalize_fens_wraps:
  "JSON_parse P s = None \<Longrightarrow> normalize_fens P (JStr s) = JSON_stringify P (JArr [JStr s])"
  by (simp add: normalize_fens_def)

text \<open>What the two loops have stored for each record when they return.\<close>

lemma db_insert_loop_rows:
  "db_insert_loop P e uid i gs st = (None, st') \<Longrightarrow> g \<in> set gs \<Longrightarrow>
     \<exists>row \<in> set (games st'). g_user_id row = uid
        \<and> sql_text P Pg (JStr (normalize_fens P (js_get g ''fens''))) = Some (g_fens row)"
proof (induction gs arbitrary: i st)
  case Nil
  then show ?case by simp
next
  case (Cons a gs)
  from Cons.prems(1) have nn: "\<not> nullish a" by (auto split: if_splits)
  let ?ins = "insert_game P e Pg i uid (js_or (js_get a ''pgn'') (JStr []))
                (normalize_fens P (js_get a ''fens''))
                (Some (js_or (js_get a ''date'')
                   (js_or (js_get a ''created_at'') (JStr (toISOString P (now e)))))) st"
  obtain r1 st1 where ins: "?ins = (r1, st1)" by (cases ?ins) auto
  from Cons.prems(1) nn ins have r1: "r1 = None"
    by (cases r1) (simp_all add: Let_def)
  with Cons.prems(1) nn ins have rest: "db_insert_loop P e uid (Suc i) gs st1 = (None, st')"
    by (simp add: Let_def)
  from insert_game_cases [OF ins] r1 obtain row where
    row: "games st1 = games st @ [row]" "g_user_id row = uid"
      "sql_text P Pg (JStr (normalize_fens P (js_get a ''fens''))) = Some (g_fens row)"
    by auto
  from db_insert_loop_cases [OF rest] obtain rows where "games st' = games st1 @ rows"
    by auto
  with row have here: "row \<in> set (games st')" by simp
  show ?case
  proof (cases "g = a")
    case True
    with here row show ?thesis by auto
  next
    case False
    with Cons.prems(2) have "g \<in> set gs" by simp
    from Cons.IH [OF rest this] show ?thesis .
  qed
qed

lemma queries_insert_loop_rows:
  "queries_insert_loop P e d uid i gs st = (None, st') \<Longrightarrow> g \<in> set gs \<Longrightarrow>
     \<exists>row \<in> set (games st'). g_user_id row = uid
        \<and> sql_text P d (JStr (JSON_stringify P (js_or (js_get g ''fens'') (JArr []))))
            = Some (g_fens row)"
proof (induction gs arbitrary: i st)
  case Nil
  then show ?case by simp
next
  case (Cons a gs)
  from Cons.prems(1) have nn: "\<not> nullish a" by (auto split: if_splits)
  let ?ins = "insert_game P e d i uid (js_or (js_get a ''pgn'') (JStr []))
                (JSON_stringify P (js_or (js_get a ''fens'') (JArr []))) None st"
  obtain r1 st1 where ins: "?ins = (r1, st1)" by (cases ?ins) auto
  from Cons.prems(1) nn ins have r1: "r1 = None"
    by (cases r1) (simp_all add: Let_def)
  with Cons.prems(1) nn ins
  have rest: "queries_insert_loop P e d uid (Suc i) gs st1 = (None, st')"
    by (simp add: Let_def)
  from insert_game_cases [OF ins] r1 obtain row where
    row: "games st1 = games st @ [row]" "g_user_id row = uid"
      "sql_text P d (JStr (JSON_stringify P (js_or (js_get a ''fens'') (JArr []))))
         = Some (g_fens row)"
    by auto
  from queries_insert_loop_cases [OF rest] obtain rows where "games st' = games st1 @ rows"
    by auto
  with row have here: "row \<in> set (games st')" by simp
  show ?case
  proof (cases "g = a")
    case True
    with here row show ?thesis by auto
  next
    case False
    with Cons.prems(2) have "g \<in> set gs" by simp
    from Cons.IH [OF rest this] show ?thesis .
  qed
qed

lemma transaction_commits:
  assumes "transaction e d body st = (None, st')"
  shows "\<exists>st1 st2. body st1 = (None, st2) \<and> games st' = games st2"
proof -
  from assms have nb: "\<not> db_fault e Begin"
    by (auto simp: transaction_def sql_begin_def split: if_splits)
  let ?s1 = "st\<lparr>snapshot := Some (games st, games_seq st)\<rparr>"
  obtain r2 st2 where b: "body ?s1 = (r2, st2)" by (cases "body ?s1") auto
  from assms nb b have r2: "r2 = None"
    by (cases r2) (simp_all add: transaction_def sql_begin_def)
  with assms nb b have "games st' = games st2"
    by (auto simp: transaction_def sql_begin_def sql_commit_def split: if_splits)
  with b r2 show ?thesis by blast
qed

lemma insertGamesBulk_rows:
  assumes "insertGamesBulk srv P e uid gs st = (None, st')" and "g \<in> set gs"
  shows "\<exists>row \<in> set (games st'). g_user_id row = uid
        \<and> sql_text P (driver_of srv) (JStr (case srv of
              ServerJs \<Rightarrow> normalize_fens P (js_get g ''fens'')
            | DualMode d \<Rightarrow> JSON_stringify P (js_or (js_get g ''fens'') (JArr []))))
            = Some (g_fens row)"
proof (cases srv)
  case ServerJs
  with assms(1) have "transaction e Pg (db_insert_loop P e uid 0 gs) st = (None, st')"
    by (simp add: db_insertGamesBulk_def split: if_splits)
  from transaction_commits [OF this] obtain st1 st2 where
    "db_insert_loop P e uid 0 gs st1 = (None, st2)" "games st' = games st2" by blast
  with db_insert_loop_rows [OF this(1) assms(2)] ServerJs show ?thesis by simp
next
  case (DualMode d)
  with assms(1) have "transaction e d (queries_insert_loop P e d uid 0 gs) st = (None, st')"
    by (simp add: queries_insertGamesBulk_def split: if_splits)
  from transaction_commits [OF this] obtain st1 st2 where
    "queries_insert_loop P e d uid 0 gs st1 = (None, st2)" "games st' = games st2" by blast
  with queries_insert_loop_rows [OF this(1) assms(2)] DualMode show ?thesis by simp
qed

text \<open>What \<^verbatim>\<open>getGamesByUser\<close> returns for a stored row.\<close>

lemma game_views_row:
  "game_views P rows = Inr vs \<Longrightarrow> row \<in> set rows \<Longrightarrow>
     \<exists>v \<in> set vs. v_id v = g_id row \<and> v_pgn v = g_pgn row
        \<and> JSON_parse P (if g_fens row = [] then ''[]'' else g_fens row) = Some (v_fens v)"
proof (induction rows arbitrary: vs)
  case Nil
  then show ?case by simp
next
  case (Cons a rows)
  from Cons.prems(1) obtain v where
    v: "JSON_parse P (if g_fens a = [] then ''[]'' else g_fens a) = Some v"
    by (cases "JSON_parse P (if g_fens a = [] then ''[]'' else g_fens a)")
       (simp_all split: if_splits)
  with Cons.prems(1) obtain vs' where vs': "game_views P rows = Inr vs'"
    "vs = \<lparr>v_id = g_id a, v_pgn = g_pgn a, v_fens = v, v_date = g_created_at a\<rparr> # vs'"
    by (cases "game_views P rows") (auto split: if_splits)
  show ?case
  proof (cases "row = a")
    case True
    with v vs' show ?thesis by auto
  next
    case False
    with Cons.prems(2) have "row \<in> set rows" by simp
    from Cons.IH [OF vs'(1) this] vs'(2) show ?thesis by auto
  qed
qed

lemma getGamesByUser_row:
  assumes "getGamesByUser P e uid st = Inr vs"
    and "row \<in> set (games st)" and "g_user_id row = uid"
  shows "\<exists>v \<in> set vs. v_id v = g_id row \<and> v_pgn v = g_pgn row
        \<and> JSON_parse P (if g_fens row = [] then ''[]'' else g_fens row) = Some (v_fens v)"
proof -
  let ?rows = "sort_key (\<lambda>r. - int (g_created_at r))
                 (filter (\<lambda>r. g_user_id r = uid) (games st))"
  from assms(1) have "game_views P ?rows = Inr vs"
    by (simp add: getGamesByUser_def split: if_splits)
  moreover from assms(2,3) have "row \<in> set ?rows" by simp
  ultimately show ?thesis by (rule game_views_row)
qed

text \<open>
  server.js does what C2 says: a record whose \<open>fens\<close> is a string that does not parse
  comes back from \<^verbatim>\<open>getGamesByUser\<close> as the one-element array of that string, given that
  JSON reads back the array it wrote, from the text the database has of it.
\<close>

lemma serverjs_wraps_unparseable:
  assumes "insertGamesBulk ServerJs P e uid gs st = (None, st')"
    and "g \<in> set gs" and "js_get g ''fens'' = JStr s" and "JSON_parse P s = None"
    and "utf8_of (JSON_stringify P (JArr [JStr s])) \<noteq> []"
    and "JSON_parse P (utf8_of (JSON_stringify P (JArr [JStr s]))) = Some (JArr [JStr s])"
    and "getGamesByUser P e2 uid st' = Inr vs"
  shows "\<exists>v \<in> set vs. v_fens v = JArr [JStr s]"
proof -
  from insertGamesBulk_rows [OF assms(1,2)] assms(3,4)
  obtain row where row: "row \<in> set (games st')" "g_user_id row = uid"
    "sql_text P Pg (JStr (JSON_stringify P (JArr [JStr s]))) = Some (g_fens row)"
    by (auto simp: normalize_fens_wraps)
  from sql_text_JStr [OF row(3)]
  have "g_fens row = utf8_of (JSON_stringify P (JArr [JStr s]))" .
  with getGamesByUser_row [OF assms(7) row(1,2)] assms(5,6) show ?thesis
    by auto
qed

text \<open>
  The dual-mode server never wraps: the same record comes back as the bare string, given
  that JSON reads back the string it wrote, from the text the database has of it.
\<close>

lemma dual_returns_bare_string:
  assumes "insertGamesBulk (DualMode d) P e uid gs st = (None, st')"
    and "g \<in> set gs" and "js_get g ''fens'' = JStr s" and "s \<noteq> []"
    and "utf8_of (JSON_stringify P (JStr s)) \<noteq> []"
    and "JSON_parse P (utf8_of (JSON_stringify P (JStr s))) = Some (JStr s)"
    and "getGamesByUser P e2 uid st' = Inr vs"
  shows "\<exists>v \<in> set vs. v_fens v = JStr s"
proof -
  from insertGamesBulk_rows [OF assms(1,2)] assms(3,4)
  obtain row where row: "row \<in> set (games st')" "g_user_id row = uid"
    "sql_text P d (JStr (JSON_stringify P (JStr s))) = Some (g_fens row)"
    by (auto simp: js_or_def)
  from sql_text_JStr [OF row(3)]
  have "g_fens row = utf8_of (JSON_stringify P (JStr s))" .
  with getGamesByUser_row [OF assms(7) row(1,2)] assms(5,6) show ?thesis
    by auto
qed

text \<open>The scenario on server.js: the record comes back as \<^verbatim>\<open>["not-json"]\<close>.\<close>

lemma serverjs_import_not_json:
  assumes "JSON_parse P ''not-json'' = None"
    and "JSON_stringify P (JArr [JStr ''not-json''])
           = ''['' @ [CHR 0x22] @ ''not-json'' @ [CHR 0x22] @ '']''"
    and "JSON_parse P (''['' @ [CHR 0x22] @ ''not-json'' @ [CHR 0x22] @ '']'')
           = Some (JArr [JStr ''not-json''])"
    and "parse_timestamp P (JStr (toISOString P 5)) = Some t"
  shows "fst (serve ServerJs P example_env PostImport
          \<lparr>cookie = Some 1, json_in = not_json_import\<rparr> alice_state)
     = json 200 (ImportedJson 1)
   \<and> map g_fens (games (snd (serve ServerJs P example_env PostImport
          \<lparr>cookie = Some 1, json_in = not_json_import\<rparr> alice_state)))
     = [''['' @ [CHR 0x22] @ ''not-json'' @ [CHR 0x22] @ '']'']
   \<and> fst (serve ServerJs P example_env GetGames
          \<lparr>cookie = Some 1, json_in = JUndefined\<rparr>
          (snd (serve ServerJs P example_env PostImport
                  \<lparr>cookie = Some 1, json_in = not_json_import\<rparr> alice_state)))
     = json 200 (GamesJson [\<lparr>v_id = 1, v_pgn = ''1.e4 e5'',
                             v_fens = JArr [JStr ''not-json''], v_date = t\<rparr>])"
  using assms
  by (simp add: serve_def load_session_def alice_state_def alice_session_def
      not_json_import_def requireAuth_def session_userId_def import_games_def
      list_games_def authenticated_def js_or_def
      db_insertGamesBulk_def transaction_def sql_begin_def sql_commit_def insert_game_def
      sql_text_def normalize_fens_def getGamesByUser_def
      example_env_def store_fails_def json_def Let_def)

text \<open>
  C2 fails on the dual-mode server, with either driver. In the spec's scenario (\<open>alice\<close>
  is registered and imports \<^verbatim>\<open>{games: [{pgn: "1.e4 e5", fens: "not-json"}]}\<close>) the
  import answers \<^verbatim>\<open>{imported: 1}\<close>, the row stores what \<^verbatim>\<open>JSON.stringify("not-json")\<close>
  returns, the string literal \<^verbatim>\<open>"not-json"\<close>, and \<^verbatim>\<open>GET /api/games\<close> returns what
  \<^verbatim>\<open>JSON.parse\<close> reads from it, the bare string \<open>not-json\<close>, not the array
  \<^verbatim>\<open>["not-json"]\<close> of the claim.
\<close>

theorem dual_import_not_json:
  assumes "JSON_stringify P (JStr ''not-json'') = [CHR 0x22] @ ''not-json'' @ [CHR 0x22]"
    and "JSON_parse P ([CHR 0x22] @ ''not-json'' @ [CHR 0x22]) = Some (JStr ''not-json'')"
  shows "fst (serve (DualMode d) P example_env PostImport
          \<lparr>cookie = Some 1, json_in = not_json_import\<rparr> alice_state)
     = json 200 (ImportedJson 1)
   \<and> map g_fens (games (snd (serve (DualMode d) P example_env PostImport
          \<lparr>cookie = Some 1, json_in = not_json_import\<rparr> alice_state)))
     = [[CHR 0x22] @ ''not-json'' @ [CHR 0x22]]
   \<and> fst (serve (DualMode d) P example_env GetGames
          \<lparr>cookie = Some 1, json_in = JUndefined\<rparr>
          (snd (serve (DualMode d) P example_env PostImport
                  \<lparr>cookie = Some 1, json_in = not_json_import\<rparr> alice_state)))
     = json 200 (GamesJson [\<lparr>v_id = 1, v_pgn = ''1.e4 e5'',
                             v_fens = JStr ''not-json'', v_date = 5\<rparr>])"
  using assms
  by (simp add: serve_def load_session_def alice_state_def alice_session_def
      not_json_import_def requireAuth_def session_userId_def import_games_def
      list_games_def authenticated_def js_or_def
      queries_insertGamesBulk_def transaction_def sql_begin_def sql_commit_def
      insert_game_def sql_text_def getGamesByUser_def
      example_env_def store_fails_def json_def Let_def)

theorem dual_import_not_json_witness:
  "content (fst (serve (DualMode Pg) example_platform example_env GetGames
          \<lparr>cookie = Some 1, json_in = JUndefined\<rparr>
          (snd (serve (DualMode Pg) example_platform example_env PostImport
                  \<lparr>cookie = Some 1, json_in = not_json_import\<rparr> alice_state))))
     = GamesJson [\<lparr>v_id = 1, v_pgn = ''1.e4 e5'', v_fens = JStr ''not-json'', v_date = 5\<rparr>]
   \<and> JStr ''not-json'' \<noteq> JArr [JStr ''not-json'']"
  using dual_import_not_json [of example_platform Pg]
  by (simp add: example_platform_def example_parse_def unquote_def json_def)

end
